theory Spec2Isabelle
  imports Complex_Main "HOL-Library.Sublist" "HOL-Library.Multiset"
begin

section \<open>Data model\<close>

text \<open>
  The types of \<^verbatim>\<open>src/types\<close>. A \<^verbatim>\<open>Date\<close> is its millisecond count
  (\<^verbatim>\<open>getTime()\<close>), an \<open>int\<close>. \<^verbatim>\<open>MyListItem\<close> carries the two fields of
  \<^verbatim>\<open>AddToMyListRequest\<close> plus \<^verbatim>\<open>addedAt\<close>, and \<^verbatim>\<open>MyListItemWithDetails\<close> the
  three fields of \<^verbatim>\<open>MyListItem\<close> plus the content details, so the records extend
  each other; an optional field is an \<open>option\<close>.
\<close>

datatype ContentType = Movie | TVShow

datatype Genre = Action | Comedy | Drama | Fantasy | Horror | Romance | SciFi

record AddToMyListRequest =
  contentId :: string
  contentType :: ContentType

record MyListItem = AddToMyListRequest +
  addedAt :: int

record MyListItemWithDetails = MyListItem +
  title :: string
  description :: string
  genres :: "Genre list"
  releaseDate :: "int option"
  director :: "string option"
  actors :: "string list option"
  episodeCount :: "nat option"

text \<open>The aggregate of \<^verbatim>\<open>MyList.model.ts\<close>: one document per user.\<close>

record MyList =
  userId :: string
  items :: "MyListItem list"
  updatedAt :: int
  createdAt :: int

record PaginationMeta =
  page :: int
  limit :: int
  total :: int
  totalPages :: int
  hasNextPage :: bool
  hasPreviousPage :: bool

record PaginatedMyListResult =
  result_items :: "MyListItem list"
  result_pagination :: PaginationMeta

record PaginatedMyListResponse =
  data :: "MyListItemWithDetails list"
  pagination :: PaginationMeta

record ListMyItemsQuery =
  query_page :: "int option"
  query_limit :: "int option"
  query_contentType :: "ContentType option"

text \<open>The catalogue documents of \<^verbatim>\<open>types/entities\<close>.\<close>

record Episode =
  episodeNumber :: int
  seasonNumber :: int
  ep_releaseDate :: int
  ep_director :: string
  ep_actors :: "string list"

record MovieDoc =
  mv_id :: string
  mv_title :: string
  mv_description :: string
  mv_genres :: "Genre list"
  mv_releaseDate :: int
  mv_director :: string
  mv_actors :: "string list"

record TVShowDoc =
  tv_id :: string
  tv_title :: string
  tv_description :: string
  tv_genres :: "Genre list"
  tv_episodes :: "Episode list"

datatype Content = MovieContent MovieDoc | TVShowContent TVShowDoc

fun content_id :: "Content \<Rightarrow> string" where
  "content_id (MovieContent m) = mv_id m"
| "content_id (TVShowContent t) = tv_id t"

text \<open>
  The errors the service and the repository throw. \<open>Error msg\<close> is a plain
  \<^verbatim>\<open>new Error(msg)\<close>; \<open>MongoDuplicateKey\<close> is the server's E11000 error, raised when
  an insert collides with the unique index on \<^verbatim>\<open>userId\<close>.
\<close>

datatype error =
    UserNotFoundError string
  | ContentNotFoundError string ContentType
  | DuplicateItemError string
  | ItemNotFoundError string
  | Error string
  | MongoDuplicateKey

section \<open>The list store: \<^verbatim>\<open>MyListRepository\<close>\<close>

text \<open>
  The \<^verbatim>\<open>mylists\<close> collection has a unique index on \<^verbatim>\<open>userId\<close>, so it is a map
  from user id to the user's document.
\<close>

type_synonym mylist_collection = "string \<rightharpoonup> MyList"

definition hasItem :: "MyList \<Rightarrow> string \<Rightarrow> bool" where
  "hasItem d cid = list_ex (\<lambda>i. contentId i = cid) (items d)"

text \<open>\<^verbatim>\<open>findOne({ userId, 'items.contentId': contentId }) !== null\<close>\<close>

definition itemExists :: "mylist_collection \<Rightarrow> string \<Rightarrow> string \<Rightarrow> bool" where
  "itemExists m uid cid = (case m uid of None \<Rightarrow> False | Some d \<Rightarrow> hasItem d cid)"

text \<open>
  Modelled from the spec: the database operation \<^verbatim>\<open>findOneAndUpdate\<close> belongs to the
  database driver, not to the repository; the spec describes it as an atomic
  conditional write with insert-if-absent semantics and an upsert of the aggregate.
  The conditional write of \<^verbatim>\<open>addItem\<close>:
  \<^verbatim>\<open>findOneAndUpdate({userId, 'items.contentId': {$ne: id}}, {$push, $set, $setOnInsert}, {upsert, new})\<close>.
  One atomic step of the database. A document of the user that does not hold the
  content id matches: the item is pushed and \<^verbatim>\<open>updatedAt\<close> set. With no document
  of the user the upsert inserts one holding the item. A document of the user that
  already holds the content id does not match the filter, so the upsert tries to
  insert a second document for the user and the unique index rejects it. The
  updated document is returned (\<^verbatim>\<open>new: true\<close>).
\<close>

definition findOneAndUpdate_push ::
  "mylist_collection \<Rightarrow> string \<Rightarrow> MyListItem \<Rightarrow> int \<Rightarrow> (error + MyList) \<times> mylist_collection" where
  "findOneAndUpdate_push m uid item now =
     (case m uid of
        None \<Rightarrow>
          (let d = \<lparr>userId = uid, items = [item], updatedAt = now, createdAt = now\<rparr>
           in (Inr d, m(uid \<mapsto> d)))
      | Some d \<Rightarrow>
          (if hasItem d (contentId item) then (Inl MongoDuplicateKey, m)
           else (let d' = d\<lparr>items := items d @ [item], updatedAt := now\<rparr>
                 in (Inr d', m(uid \<mapsto> d')))))"

text \<open>
  \<^verbatim>\<open>addItem\<close>: the quick check, the conditional write, the verification of the
  returned document, and the \<^verbatim>\<open>catch\<close> block, which re-checks membership for every
  error other than the duplicate error thrown by the quick check.
\<close>

definition addItem_catch :: "mylist_collection \<Rightarrow> string \<Rightarrow> MyListItem \<Rightarrow> error \<Rightarrow> error" where
  "addItem_catch m uid item err =
     (if err = Error ''Item already exists in list'' then err
      else if itemExists m uid (contentId item) then Error ''Item already exists in list''
      else err)"

definition addItem :: "mylist_collection \<Rightarrow> string \<Rightarrow> MyListItem \<Rightarrow> int \<Rightarrow> (error + unit) \<times> mylist_collection" where
  "addItem m uid item now =
     (if itemExists m uid (contentId item)
      then (Inl (addItem_catch m uid item (Error ''Item already exists in list'')), m)
      else (case findOneAndUpdate_push m uid item now of
              (Inl err, m') \<Rightarrow> (Inl (addItem_catch m' uid item err), m')
            | (Inr result, m') \<Rightarrow>
                (if hasItem result (contentId item) then (Inr (), m')
                 else (Inl (addItem_catch m' uid item (Error ''Failed to add item to list'')), m'))))"

text \<open>
  Modelled from the spec: the same database operation with \<^verbatim>\<open>$pull\<close>, an atomic
  delete of the matching entries.
  \<^verbatim>\<open>removeItem\<close>: \<^verbatim>\<open>findOneAndUpdate({userId}, {$pull: {items: {contentId}}, $set: {updatedAt}}, {new: true})\<close>
  has no upsert, so it returns \<^verbatim>\<open>null\<close> and writes nothing when the user has no
  document. Otherwise it removes every matching item, sets \<^verbatim>\<open>updatedAt\<close> and returns
  the updated document; the function then answers whether the returned document
  still holds the content id.
\<close>

definition findOneAndUpdate_pull ::
  "mylist_collection \<Rightarrow> string \<Rightarrow> string \<Rightarrow> int \<Rightarrow> MyList option \<times> mylist_collection" where
  "findOneAndUpdate_pull m uid cid now =
     (case m uid of
        None \<Rightarrow> (None, m)
      | Some d \<Rightarrow>
          (let d' = d\<lparr>items := filter (\<lambda>i. contentId i \<noteq> cid) (items d), updatedAt := now\<rparr>
           in (Some d', m(uid \<mapsto> d'))))"

definition removeItem :: "mylist_collection \<Rightarrow> string \<Rightarrow> string \<Rightarrow> int \<Rightarrow> bool \<times> mylist_collection" where
  "removeItem m uid cid now =
     (case findOneAndUpdate_pull m uid cid now of
        (None, m') \<Rightarrow> (False, m')
      | (Some result, m') \<Rightarrow> (\<not> hasItem result cid, m'))"

text \<open>
  \<^verbatim>\<open>Array.prototype.slice(start, end)\<close> with its treatment of negative and
  oversized indices, and \<^verbatim>\<open>Math.ceil(total / limit)\<close> on integers. For
  \<^verbatim>\<open>limit = 0\<close> JavaScript yields \<^verbatim>\<open>Infinity\<close> or \<^verbatim>\<open>NaN\<close>, which \<open>int\<close> does
  not have; \<^verbatim>\<open>getMyList\<close> never passes it (\<^verbatim>\<open>query.limit || 10\<close>).
\<close>

definition slice :: "'a list \<Rightarrow> int \<Rightarrow> int \<Rightarrow> 'a list" where
  "slice xs start fin =
     (let n = int (length xs);
          k = (if start < 0 then max (n + start) 0 else min start n);
          f = (if fin < 0 then max (n + fin) 0 else min fin n)
      in take (nat (f - k)) (drop (nat k) xs))"

definition ceil_div :: "int \<Rightarrow> int \<Rightarrow> int" where
  "ceil_div a b = - ((- a) div b)"

text \<open>
  \<^verbatim>\<open>getItemsPaginated\<close>. \<^verbatim>\<open>[...items].sort((a, b) => b.addedAt - a.addedAt)\<close> is a
  stable sort on descending \<^verbatim>\<open>addedAt\<close>: \<open>sort_key\<close> (insertion sort, stable) on the
  negated key.
\<close>

definition getItemsPaginated :: "mylist_collection \<Rightarrow> string \<Rightarrow> int \<Rightarrow> int \<Rightarrow> PaginatedMyListResult" where
  "getItemsPaginated m uid pg lmt =
     (case m uid of
        None \<Rightarrow>
          \<lparr>result_items = [],
           result_pagination = \<lparr>page = pg, limit = lmt, total = 0, totalPages = 0,
                                hasNextPage = False, hasPreviousPage = False\<rparr>\<rparr>
      | Some d \<Rightarrow>
          (let tot = int (length (items d));
               pages = ceil_div tot lmt;
               skip = (pg - 1) * lmt;
               sortedItems = sort_key (\<lambda>i. - addedAt i) (items d);
               paginatedItems = slice sortedItems skip (skip + lmt)
           in \<lparr>result_items = paginatedItems,
               result_pagination = \<lparr>page = pg, limit = lmt, total = tot, totalPages = pages,
                                    hasNextPage = (pg < pages), hasPreviousPage = (pg > 1)\<rparr>\<rparr>))"

section \<open>The content catalogue: \<^verbatim>\<open>ContentRepository\<close>\<close>

text \<open>The two catalogue collections are lists of documents.\<close>

definition contentExists :: "MovieDoc list \<Rightarrow> TVShowDoc list \<Rightarrow> string \<Rightarrow> ContentType \<Rightarrow> bool" where
  "contentExists ms ts cid ct =
     (if ct = Movie then length (filter (\<lambda>d. mv_id d = cid) ms) > 0
      else length (filter (\<lambda>d. tv_id d = cid) ts) > 0)"

text \<open>
  \<^verbatim>\<open>findContentsByIds\<close>: one \<^verbatim>\<open>$in\<close> query per collection (skipped when it would
  have no ids), the results gathered in a \<^verbatim>\<open>Map\<close> keyed by id alone (movies first,
  TV shows written over them; \<open>contentMap\<close> is that local variable), then read back
  in the order requested, dropping the ids the map does not hold.
\<close>

definition contentMap_set :: "(string \<rightharpoonup> Content) \<Rightarrow> Content list \<Rightarrow> (string \<rightharpoonup> Content)" where
  "contentMap_set cm cs = fold (\<lambda>c acc. acc(content_id c \<mapsto> c)) cs cm"

definition contentMap ::
  "MovieDoc list \<Rightarrow> TVShowDoc list \<Rightarrow> AddToMyListRequest list \<Rightarrow> (string \<rightharpoonup> Content)" where
  "contentMap ms ts contentIds =
     (let movieIds = map contentId (filter (\<lambda>item. contentType item = Movie) contentIds);
          tvShowIds = map contentId (filter (\<lambda>item. contentType item = TVShow) contentIds);
          movieDocs = (if length movieIds > 0 then filter (\<lambda>d. mv_id d \<in> set movieIds) ms else []);
          tvShowDocs = (if length tvShowIds > 0 then filter (\<lambda>d. tv_id d \<in> set tvShowIds) ts else [])
      in contentMap_set (contentMap_set Map.empty (map MovieContent movieDocs))
           (map TVShowContent tvShowDocs))"

definition findContentsByIds ::
  "MovieDoc list \<Rightarrow> TVShowDoc list \<Rightarrow> AddToMyListRequest list \<Rightarrow> Content list" where
  "findContentsByIds ms ts contentIds =
     List.map_filter (\<lambda>item. contentMap ms ts contentIds (contentId item)) contentIds"

section \<open>The cache: \<^verbatim>\<open>InMemoryCacheService\<close> and \<^verbatim>\<open>CacheService\<close>\<close>

text \<open>
  \<^verbatim>\<open>CacheServiceFactory\<close> hands \<^verbatim>\<open>CacheService\<close> one of two implementations of
  \<^verbatim>\<open>ICacheService\<close>. The one embedded here is the in-process \<^verbatim>\<open>InMemoryCacheService\<close>,
  a map from key to value and expiry time; it is the one in use unless
  \<^verbatim>\<open>REDIS_ENABLED\<close> is \<^verbatim>\<open>'true'\<close> and the server accepts the connection. Its \<^verbatim>\<open>get\<close>
  returns the stored value itself. Its periodic sweep removes only entries that
  \<^verbatim>\<open>get\<close> already treats as absent and is left out.

  \<^verbatim>\<open>RedisCacheService\<close> is not embedded. It keeps \<^verbatim>\<open>JSON.stringify(value)\<close> in an
  external server and its \<^verbatim>\<open>get\<close> returns \<^verbatim>\<open>JSON.parse\<close> of that text, in which every
  \<^verbatim>\<open>Date\<close> of the stored page has become a string; its \<^verbatim>\<open>deletePattern\<close> matches keys
  with the server's own pattern syntax. Every statement below about the contents of
  the cache, or about a page read from it, is a statement about
  \<^verbatim>\<open>InMemoryCacheService\<close>.
\<close>

text \<open>
  What the platform supplies to one call of the service: the clock reading (one
  reading serves every \<^verbatim>\<open>new Date()\<close> and \<^verbatim>\<open>Date.now()\<close> of the call), the test
  \<^verbatim>\<open>new RegExp(source).test(key)\<close> of the regular-expression engine, and whether
  the \<^verbatim>\<open>get\<close>, \<^verbatim>\<open>set\<close> or \<^verbatim>\<open>deletePattern\<close> call on the \<^verbatim>\<open>ICacheService\<close> throws (a
  malformed expression handed to \<^verbatim>\<open>RegExp\<close>, or any failure of another
  implementation of the interface).
\<close>

record env =
  now :: int
  regExpTest :: "string \<Rightarrow> string \<Rightarrow> bool"
  cacheGetThrows :: bool
  cacheSetThrows :: bool
  cacheDeleteThrows :: bool

record CacheEntry =
  entry_value :: PaginatedMyListResponse
  entry_expiry :: "int option"

type_synonym cache_map = "string \<rightharpoonup> CacheEntry"

text \<open>\<^verbatim>\<open>entry.expiry && entry.expiry < Date.now()\<close>: an expiry of 0 is falsy.\<close>

definition expired :: "CacheEntry \<Rightarrow> int \<Rightarrow> bool" where
  "expired entry t = (case entry_expiry entry of None \<Rightarrow> False | Some x \<Rightarrow> x \<noteq> 0 \<and> x < t)"

definition InMemoryCacheService_get :: "cache_map \<Rightarrow> string \<Rightarrow> int \<Rightarrow> PaginatedMyListResponse option \<times> cache_map" where
  "InMemoryCacheService_get c key t =
     (case c key of
        None \<Rightarrow> (None, c)
      | Some entry \<Rightarrow> (if expired entry t then (None, c(key := None)) else (Some (entry_value entry), c)))"

definition InMemoryCacheService_set :: "cache_map \<Rightarrow> string \<Rightarrow> PaginatedMyListResponse \<Rightarrow> int \<Rightarrow> int \<Rightarrow> cache_map" where
  "InMemoryCacheService_set c key v ttlSeconds t =
     c(key \<mapsto> \<lparr>entry_value = v,
                entry_expiry = (if ttlSeconds \<noteq> 0 then Some (t + ttlSeconds * 1000) else None)\<rparr>)"

text \<open>\<^verbatim>\<open>pattern.replace(/\*/g, '.*')\<close>\<close>

definition replaceStars :: "string \<Rightarrow> string" where
  "replaceStars pattern = concat (map (\<lambda>c. if c = CHR ''*'' then ''.*'' else [c]) pattern)"

definition InMemoryCacheService_deletePattern :: "(string \<Rightarrow> string \<Rightarrow> bool) \<Rightarrow> cache_map \<Rightarrow> string \<Rightarrow> cache_map" where
  "InMemoryCacheService_deletePattern test c pattern =
     (\<lambda>key. if test (replaceStars pattern) key then None else c key)"

text \<open>
  The engine on the expressions this program builds from a user id without
  expression syntax: literal text followed by \<^verbatim>\<open>.*\<close>. \<^verbatim>\<open>test\<close> is not anchored, so
  it succeeds when the literal text occurs anywhere in the key.
\<close>

definition literalChar :: "char \<Rightarrow> bool" where
  "literalChar c = (c \<in> set ''abcdefghijklmnopqrstuvwxyzABCDEFGHIJKLMNOPQRSTUVWXYZ0123456789:_- '')"

definition literalRegExpTest :: "string \<Rightarrow> string \<Rightarrow> bool" where
  "literalRegExpTest source key =
     (let lit = take (length source - 2) source
      in drop (length source - 2) source = ''.*'' \<and> list_all literalChar lit \<and> sublist lit key)"

text \<open>Decimal rendering of a number in a template string.\<close>

definition digit :: "nat \<Rightarrow> char" where
  "digit d = ''0123456789'' ! d"

function nat_to_string :: "nat \<Rightarrow> string" where
  "nat_to_string n = (if n < 10 then [digit n] else nat_to_string (n div 10) @ [digit (n mod 10)])"
  by pat_completeness auto
termination
  by (relation "measure id") auto

declare nat_to_string.simps [simp del]

definition int_to_string :: "int \<Rightarrow> string" where
  "int_to_string i = (if i < 0 then CHR ''-'' # nat_to_string (nat (- i)) else nat_to_string (nat i))"

fun contentType_string :: "ContentType \<Rightarrow> string" where
  "contentType_string Movie = ''Movie''"
| "contentType_string TVShow = ''TVShow''"

definition getListCacheKey :: "string \<Rightarrow> int \<Rightarrow> int \<Rightarrow> ContentType option \<Rightarrow> string" where
  "getListCacheKey uid pg lmt ct =
     (let baseKey = ''mylist'' @ '':'' @ uid @ '':'' @ int_to_string pg @ '':'' @ int_to_string lmt
      in case ct of None \<Rightarrow> baseKey | Some t \<Rightarrow> baseKey @ '':'' @ contentType_string t)"

definition getUserCachePattern :: "string \<Rightarrow> string" where
  "getUserCachePattern uid = ''mylist'' @ '':'' @ uid @ '':*''"

definition CACHE_TTL_SECONDS :: int where
  "CACHE_TTL_SECONDS = 300"

section \<open>The state and the service: \<^verbatim>\<open>MyListService\<close>\<close>

text \<open>
  The state the service works on: the user directory (the ids of the user
  documents), the two catalogue collections, the list collection, and the field
  \<^verbatim>\<open>CacheService.cache\<close>, which is \<^verbatim>\<open>null\<close> (\<open>None\<close>) when the cache is disabled.
  Failures of the database connection are not part of the model.
\<close>

record world =
  users :: "string set"
  movies :: "MovieDoc list"
  tvshows :: "TVShowDoc list"
  mylists :: mylist_collection
  cache :: "cache_map option"

definition getCachedList ::
  "env \<Rightarrow> world \<Rightarrow> string \<Rightarrow> int \<Rightarrow> int \<Rightarrow> ContentType option \<Rightarrow> PaginatedMyListResponse option \<times> world" where
  "getCachedList e w uid pg lmt ct =
     (case cache w of
        None \<Rightarrow> (None, w)
      | Some c \<Rightarrow>
          (if cacheGetThrows e then (None, w)
           else (case InMemoryCacheService_get c (getListCacheKey uid pg lmt ct) (now e) of
                   (cached, c') \<Rightarrow> (cached, w\<lparr>cache := Some c'\<rparr>))))"

definition setCachedList ::
  "env \<Rightarrow> world \<Rightarrow> string \<Rightarrow> int \<Rightarrow> int \<Rightarrow> PaginatedMyListResponse \<Rightarrow> ContentType option \<Rightarrow> world" where
  "setCachedList e w uid pg lmt v ct =
     (case cache w of
        None \<Rightarrow> w
      | Some c \<Rightarrow>
          (if cacheSetThrows e then w
           else w\<lparr>cache := Some (InMemoryCacheService_set c (getListCacheKey uid pg lmt ct) v CACHE_TTL_SECONDS (now e))\<rparr>))"

definition invalidateUserList :: "env \<Rightarrow> world \<Rightarrow> string \<Rightarrow> world" where
  "invalidateUserList e w uid =
     (case cache w of
        None \<Rightarrow> w
      | Some c \<Rightarrow>
          (if cacheDeleteThrows e then w
           else w\<lparr>cache := Some (InMemoryCacheService_deletePattern (regExpTest e) c (getUserCachePattern uid))\<rparr>))"

text \<open>
  The calls a service function makes on its collaborators, in order: what the
  function does besides returning.
\<close>

datatype call =
    UserExists string
  | ContentExists string ContentType
  | ItemExists string string
  | AddItem string MyListItem
  | RemoveItem string string
  | InvalidateUserList string

text \<open>
  \<^verbatim>\<open>addToMyList\<close>. The \<^verbatim>\<open>catch\<close> block re-throws whatever it caught, so a failure
  of the repository reaches the caller as the repository threw it.
\<close>

definition addToMyList ::
  "env \<Rightarrow> world \<Rightarrow> string \<Rightarrow> AddToMyListRequest \<Rightarrow> (error + unit) \<times> world \<times> call list" where
  "addToMyList e w uid request =
     (if \<not> (uid \<in> users w) then
        (Inl (UserNotFoundError uid), w, [UserExists uid])
      else if \<not> contentExists (movies w) (tvshows w) (contentId request) (contentType request) then
        (Inl (ContentNotFoundError (contentId request) (contentType request)), w,
         [UserExists uid, ContentExists (contentId request) (contentType request)])
      else if itemExists (mylists w) uid (contentId request) then
        (Inl (DuplicateItemError (contentId request)), w,
         [UserExists uid, ContentExists (contentId request) (contentType request),
          ItemExists uid (contentId request)])
      else
        (let item = \<lparr>contentId = contentId request, contentType = contentType request,
                     addedAt = now e\<rparr>
         in case addItem (mylists w) uid item (now e) of
              (Inl err, m') \<Rightarrow>
                (Inl err, w\<lparr>mylists := m'\<rparr>,
                 [UserExists uid, ContentExists (contentId request) (contentType request),
                  ItemExists uid (contentId request), AddItem uid item])
            | (Inr u, m') \<Rightarrow>
                (Inr (), invalidateUserList e (w\<lparr>mylists := m'\<rparr>) uid,
                 [UserExists uid, ContentExists (contentId request) (contentType request),
                  ItemExists uid (contentId request), AddItem uid item,
                  InvalidateUserList uid])))"

definition removeFromMyList ::
  "env \<Rightarrow> world \<Rightarrow> string \<Rightarrow> string \<Rightarrow> (error + unit) \<times> world \<times> call list" where
  "removeFromMyList e w uid cid =
     (case removeItem (mylists w) uid cid (now e) of
        (removed, m') \<Rightarrow>
          (if \<not> removed then (Inl (ItemNotFoundError cid), w\<lparr>mylists := m'\<rparr>, [RemoveItem uid cid])
           else (Inr (), invalidateUserList e (w\<lparr>mylists := m'\<rparr>) uid,
                 [RemoveItem uid cid, InvalidateUserList uid])))"

text \<open>
  \<^verbatim>\<open>getMyList\<close>, steps 2 to 6: the page assembled from the store on a cache miss.
  \<open>withDetails\<close> is the body of the \<^verbatim>\<open>map\<close> callback for an item whose content was
  found, \<open>isMovie\<close> the type guard of \<^verbatim>\<open>types/entities\<close>.
\<close>

fun isMovie :: "Content \<Rightarrow> bool" where
  "isMovie (MovieContent m) = True"
| "isMovie (TVShowContent t) = False"

fun withDetails :: "MyListItem \<Rightarrow> Content \<Rightarrow> MyListItemWithDetails" where
  "withDetails item (MovieContent m) =
     \<lparr>contentId = contentId item, contentType = contentType item, addedAt = addedAt item,
      title = mv_title m, description = mv_description m, genres = mv_genres m,
      releaseDate = Some (mv_releaseDate m), director = Some (mv_director m),
      actors = Some (mv_actors m), episodeCount = None\<rparr>"
| "withDetails item (TVShowContent t) =
     \<lparr>contentId = contentId item, contentType = contentType item, addedAt = addedAt item,
      title = tv_title t, description = tv_description t, genres = tv_genres t,
      releaseDate = None, director = None, actors = None,
      episodeCount = Some (length (tv_episodes t))\<rparr>"

definition itemsToProcess :: "MyListItem list \<Rightarrow> ContentType option \<Rightarrow> MyListItem list" where
  "itemsToProcess its ct =
     (case ct of None \<Rightarrow> its | Some t \<Rightarrow> filter (\<lambda>item. contentType item = t) its)"

definition itemsWithDetails :: "Content list \<Rightarrow> MyListItem list \<Rightarrow> MyListItemWithDetails list" where
  "itemsWithDetails contentDetails its =
     List.map_filter
       (\<lambda>item. case find (\<lambda>c. content_id c = contentId item) contentDetails of
                  None \<Rightarrow> None
                | Some content \<Rightarrow> Some (withDetails item content))
       its"

definition assemblePage ::
  "world \<Rightarrow> string \<Rightarrow> int \<Rightarrow> int \<Rightarrow> ContentType option \<Rightarrow> PaginatedMyListResponse" where
  "assemblePage w uid pg lmt ct =
     (let result = getItemsPaginated (mylists w) uid pg lmt
      in if length (result_items result) = 0 then
           \<lparr>data = [], pagination = result_pagination result\<rparr>
         else
           (let its = itemsToProcess (result_items result) ct;
                contentDetails = findContentsByIds (movies w) (tvshows w)
                   (map (\<lambda>item. \<lparr>contentId = contentId item, contentType = contentType item\<rparr>) its);
                detailed = itemsWithDetails contentDetails its;
                pagination' =
                  (case ct of
                     None \<Rightarrow> result_pagination result
                   | Some t \<Rightarrow>
                       (let totalFiltered = int (length detailed)
                        in (result_pagination result)
                             \<lparr>total := totalFiltered,
                              totalPages := ceil_div totalFiltered lmt,
                              hasNextPage := (pg < ceil_div totalFiltered lmt),
                              hasPreviousPage := (pg > 1)\<rparr>))
            in \<lparr>data = detailed, pagination = pagination'\<rparr>))"

text \<open>
  \<^verbatim>\<open>getMyList\<close>: \<^verbatim>\<open>query.page || 1\<close> and \<^verbatim>\<open>query.limit || 10\<close> replace a missing
  or zero value; a cached page is returned as it is; otherwise the page is
  assembled, stored in the cache (the empty page too) and returned.
\<close>

definition query_page_or_default :: "ListMyItemsQuery \<Rightarrow> int" where
  "query_page_or_default q = (case query_page q of None \<Rightarrow> 1 | Some p \<Rightarrow> if p = 0 then 1 else p)"

definition query_limit_or_default :: "ListMyItemsQuery \<Rightarrow> int" where
  "query_limit_or_default q = (case query_limit q of None \<Rightarrow> 10 | Some l \<Rightarrow> if l = 0 then 10 else l)"

definition getMyList :: "env \<Rightarrow> world \<Rightarrow> string \<Rightarrow> ListMyItemsQuery \<Rightarrow> PaginatedMyListResponse \<times> world" where
  "getMyList e w uid q =
     (let pg = query_page_or_default q;
          lmt = query_limit_or_default q;
          ct = query_contentType q
      in case getCachedList e w uid pg lmt ct of
           (Some cached, w') \<Rightarrow> (cached, w')
         | (None, w') \<Rightarrow>
             (let response = assemblePage w' uid pg lmt ct
              in (response, setCachedList e w' uid pg lmt response ct)))"

text \<open>The entry the cache holds under a key, read without the expiry check.\<close>

definition cache_entry :: "world \<Rightarrow> string \<Rightarrow> CacheEntry option" where
  "cache_entry w key = (case cache w of None \<Rightarrow> None | Some c \<Rightarrow> c key)"

text \<open>
  What an element of a returned page is for a list item: the item with the details
  of a catalogue document of the item's id and type.
\<close>

definition page_entry :: "world \<Rightarrow> MyListItem \<Rightarrow> MyListItemWithDetails \<Rightarrow> bool" where
  "page_entry w item x \<longleftrightarrow>
     (\<exists>d \<in> set (movies w). contentType item = Movie \<and> mv_id d = contentId item
                    \<and> x = withDetails item (MovieContent d))
     \<or> (\<exists>d \<in> set (tvshows w). contentType item = TVShow \<and> tv_id d = contentId item
                    \<and> x = withDetails item (TVShowContent d))"

section \<open>Sequences of calls\<close>

text \<open>
  A call of the service with the platform's inputs for it, and the state after one
  call and after a sequence of calls.
\<close>

datatype operation =
    AddToList string AddToMyListRequest
  | RemoveFromList string string
  | GetList string ListMyItemsQuery

fun perform :: "env \<Rightarrow> operation \<Rightarrow> world \<Rightarrow> world" where
  "perform e (AddToList uid request) w = fst (snd (addToMyList e w uid request))"
| "perform e (RemoveFromList uid cid) w = fst (snd (removeFromMyList e w uid cid))"
| "perform e (GetList uid q) w = snd (getMyList e w uid q)"

fun run :: "(env \<times> operation) list \<Rightarrow> world \<Rightarrow> world" where
  "run [] w = w"
| "run ((e, op) # ops) w = run ops (perform e op w)"




section \<open>Interleaved calls of \<^verbatim>\<open>addToMyList\<close>\<close>

text \<open>
  Calls of the service run on one event loop: the code between two \<^verbatim>\<open>await\<close>s runs
  without interruption, and each awaited database or cache operation is one atomic
  step on the shared state, between which the steps of other calls may fall. The
  program counter of a call of \<^verbatim>\<open>addToMyList\<close> names the operation it awaits next:
  the user lookup, the content lookup, the service's duplicate check, the quick
  check and the conditional write of \<^verbatim>\<open>addItem\<close>, the re-check of its \<^verbatim>\<open>catch\<close> block
  (with the error caught), the invalidation; or the call has returned.
\<close>

datatype add_pc =
    AwaitUserExists
  | AwaitContentExists
  | AwaitItemExists
  | AwaitRepoItemExists
  | AwaitFindOneAndUpdate
  | AwaitRecheck error
  | AwaitInvalidate
  | Returned "error + unit"

record add_call =
  call_env :: env
  call_user :: string
  call_request :: AddToMyListRequest
  call_pc :: add_pc

definition add_step :: "add_call \<Rightarrow> world \<Rightarrow> add_call \<times> world" where
  "add_step c w =
     (let e = call_env c; uid = call_user c; request = call_request c;
          item = \<lparr>contentId = contentId request, contentType = contentType request, addedAt = now e\<rparr>
      in case call_pc c of
           AwaitUserExists \<Rightarrow>
             (if \<not> (uid \<in> users w) then (c\<lparr>call_pc := Returned (Inl (UserNotFoundError uid))\<rparr>, w)
              else (c\<lparr>call_pc := AwaitContentExists\<rparr>, w))
         | AwaitContentExists \<Rightarrow>
             (if \<not> contentExists (movies w) (tvshows w) (contentId request) (contentType request)
              then (c\<lparr>call_pc := Returned (Inl (ContentNotFoundError (contentId request) (contentType request)))\<rparr>, w)
              else (c\<lparr>call_pc := AwaitItemExists\<rparr>, w))
         | AwaitItemExists \<Rightarrow>
             (if itemExists (mylists w) uid (contentId request)
              then (c\<lparr>call_pc := Returned (Inl (DuplicateItemError (contentId request)))\<rparr>, w)
              else (c\<lparr>call_pc := AwaitRepoItemExists\<rparr>, w))
         | AwaitRepoItemExists \<Rightarrow>
             (if itemExists (mylists w) uid (contentId item)
              then (c\<lparr>call_pc := Returned (Inl (Error ''Item already exists in list''))\<rparr>, w)
              else (c\<lparr>call_pc := AwaitFindOneAndUpdate\<rparr>, w))
         | AwaitFindOneAndUpdate \<Rightarrow>
             (case findOneAndUpdate_push (mylists w) uid item (now e) of
                (Inl err, m') \<Rightarrow> (c\<lparr>call_pc := AwaitRecheck err\<rparr>, w\<lparr>mylists := m'\<rparr>)
              | (Inr result, m') \<Rightarrow>
                  (if hasItem result (contentId item) then (c\<lparr>call_pc := AwaitInvalidate\<rparr>, w\<lparr>mylists := m'\<rparr>)
                   else (c\<lparr>call_pc := AwaitRecheck (Error ''Failed to add item to list'')\<rparr>,
                         w\<lparr>mylists := m'\<rparr>)))
         | AwaitRecheck err \<Rightarrow>
             (if itemExists (mylists w) uid (contentId item)
              then (c\<lparr>call_pc := Returned (Inl (Error ''Item already exists in list''))\<rparr>, w)
              else (c\<lparr>call_pc := Returned (Inl err)\<rparr>, w))
         | AwaitInvalidate \<Rightarrow> (c\<lparr>call_pc := Returned (Inr ())\<rparr>, invalidateUserList e w uid)
         | Returned r \<Rightarrow> (c, w))"

text \<open>
  The calls in flight and the shared state; a schedule names, step by step, the call
  that runs next.
\<close>

definition schedule_step :: "nat \<Rightarrow> add_call list \<times> world \<Rightarrow> add_call list \<times> world" where
  "schedule_step i s =
     (case s of (cs, w) \<Rightarrow>
        if i < length cs then (case add_step (cs ! i) w of (c', w') \<Rightarrow> (cs[i := c'], w'))
        else (cs, w))"

fun run_schedule :: "nat list \<Rightarrow> add_call list \<times> world \<Rightarrow> add_call list \<times> world" where
  "run_schedule [] s = s"
| "run_schedule (i # sched) s = run_schedule sched (schedule_step i s)"

definition start_call :: "env \<Rightarrow> string \<Rightarrow> AddToMyListRequest \<Rightarrow> add_call" where
  "start_call e uid request =
     \<lparr>call_env = e, call_user = uid, call_request = request, call_pc = AwaitUserExists\<rparr>"

text \<open>
  The phases of a call, used to state what interleaved calls for one content id can
  reach: it has not yet passed the conditional write, it has written, or it has
  learnt that the item exists. \<open>add_inv\<close> is the invariant of the interleaving for
  calls of one user and one content id.
\<close>

definition early :: "add_pc \<Rightarrow> bool" where
  "early pc \<longleftrightarrow> pc = AwaitUserExists \<or> pc = AwaitContentExists \<or> pc = AwaitItemExists
     \<or> pc = AwaitRepoItemExists \<or> pc = AwaitFindOneAndUpdate"

definition won :: "add_pc \<Rightarrow> bool" where
  "won pc \<longleftrightarrow> pc = AwaitInvalidate \<or> pc = Returned (Inr ())"

definition lost :: "string \<Rightarrow> add_pc \<Rightarrow> bool" where
  "lost cid pc \<longleftrightarrow> pc = AwaitRecheck MongoDuplicateKey
     \<or> pc = Returned (Inl (DuplicateItemError cid))
     \<or> pc = Returned (Inl (Error ''Item already exists in list''))"

definition add_inv :: "string \<Rightarrow> string \<Rightarrow> add_call list \<times> world \<Rightarrow> bool" where
  "add_inv uid cid s \<longleftrightarrow>
     (case s of (cs, w) \<Rightarrow>
        uid \<in> users w
        \<and> (\<forall>c \<in> set cs. call_user c = uid \<and> contentId (call_request c) = cid
               \<and> contentExists (movies w) (tvshows w) cid (contentType (call_request c))
               \<and> (early (call_pc c) \<or> won (call_pc c)
                    \<or> (lost cid (call_pc c) \<and> itemExists (mylists w) uid cid)))
        \<and> length (filter (\<lambda>c. won (call_pc c)) cs) = (if itemExists (mylists w) uid cid then 1 else 0))"

text \<open>The content ids of every stored list are distinct.\<close>

definition unique_ids :: "world \<Rightarrow> bool" where
  "unique_ids w \<longleftrightarrow> (\<forall>uid d. mylists w uid = Some d \<longrightarrow> distinct (map contentId (items d)))"

section \<open>Example data\<close>

text \<open>A small catalogue, two users and one stored list, used to run the operations.\<close>

definition movie1 :: MovieDoc where
  "movie1 = \<lparr>mv_id = ''movie-1'', mv_title = ''Movie 1'', mv_description = ''First'',
              mv_genres = [Action, SciFi], mv_releaseDate = 1577836800000,
              mv_director = ''Director 1'', mv_actors = [''Actor 1'', ''Actor 2'']\<rparr>"

definition movie2 :: MovieDoc where
  "movie2 = \<lparr>mv_id = ''movie-2'', mv_title = ''Movie 2'', mv_description = ''Second'',
              mv_genres = [Comedy], mv_releaseDate = 1609459200000,
              mv_director = ''Director 2'', mv_actors = [''Actor 3'']\<rparr>"

definition tvshow1 :: TVShowDoc where
  "tvshow1 = \<lparr>tv_id = ''tvshow-1'', tv_title = ''Show 1'', tv_description = ''A show'',
               tv_genres = [Drama],
               tv_episodes = [\<lparr>episodeNumber = 1, seasonNumber = 1, ep_releaseDate = 1577836800000,
                                ep_director = ''TV Director'', ep_actors = [''TV Actor'']\<rparr>]\<rparr>"

definition list_u1 :: MyList where
  "list_u1 = \<lparr>userId = ''u1'',
               items = [\<lparr>contentId = ''movie-1'', contentType = Movie, addedAt = 10\<rparr>,
                        \<lparr>contentId = ''tvshow-1'', contentType = TVShow, addedAt = 20\<rparr>],
               updatedAt = 20, createdAt = 10\<rparr>"


definition env0 :: env where
  "env0 = \<lparr>now = 1000, regExpTest = literalRegExpTest, cacheGetThrows = False,
            cacheSetThrows = False, cacheDeleteThrows = False\<rparr>"

definition world0 :: world where
  "world0 = \<lparr>users = {''u1'', ''u2''}, movies = [movie1, movie2], tvshows = [tvshow1],
              mylists = [''u1'' \<mapsto> list_u1], cache = Some Map.empty\<rparr>"

text \<open>The same state after \<^verbatim>\<open>movie-1\<close> has been deleted from the catalogue.\<close>

definition world1 :: world where
  "world1 = world0\<lparr>movies := [movie2]\<rparr>"

definition query0 :: ListMyItemsQuery where
  "query0 = \<lparr>query_page = None, query_limit = None, query_contentType = None\<rparr>"

text \<open>
  A directory with the users \<^verbatim>\<open>a\<close> and \<^verbatim>\<open>a:b\<close>, no stored list and an empty
  cache.
\<close>

definition world_ab :: world where
  "world_ab = \<lparr>users = {''a'', ''a:b''}, movies = [movie1, movie2], tvshows = [tvshow1],
                mylists = Map.empty, cache = Some Map.empty\<rparr>"



section \<open>Properties of the store operations\<close>

lemma hasItem_iff: "hasItem d cid \<longleftrightarrow> cid \<in> contentId ` set (items d)"
  by (auto simp: hasItem_def list_ex_iff)

lemma addItem_fresh:
  "\<not> itemExists m uid (contentId item) \<Longrightarrow>
   \<exists>d. addItem m uid item t = (Inr (), m(uid \<mapsto> d)) \<and> updatedAt d = t \<and> hasItem d (contentId item)"
  by (auto simp: addItem_def findOneAndUpdate_push_def itemExists_def hasItem_def Let_def split: option.splits)

text \<open>
  \<^verbatim>\<open>removeFromMyList\<close> answers from the existence of the user's document alone: the
  document returned by the update never holds the content id, whether or not an item
  was pulled.
\<close>

lemma removeFromMyList_result:
  "fst (removeFromMyList e w uid cid) = (if mylists w uid = None then Inl (ItemNotFoundError cid) else Inr ())"
  by (simp add: removeFromMyList_def removeItem_def findOneAndUpdate_pull_def hasItem_def list_ex_iff Let_def split: option.splits)



lemma ceil_div_ceiling: "ceil_div a b = \<lceil>real_of_int a / real_of_int b\<rceil>"
proof -
  have "\<lceil>real_of_int a / real_of_int b\<rceil> = - \<lfloor>real_of_int (- a) / real_of_int b\<rfloor>"
    by (simp add: ceiling_def)
  also have "\<dots> = - ((- a) div b)"
    by (simp only: floor_divide_of_int_eq)
  finally show ?thesis by (simp add: ceil_div_def)
qed

section \<open>Properties of the page assembly\<close>

lemma contentMap_set_Some:
  "contentMap_set cm cs k = Some c \<Longrightarrow> (c \<in> set cs \<and> content_id c = k) \<or> cm k = Some c"
proof (induction cs arbitrary: cm)
  case Nil
  then show ?case by (simp add: contentMap_set_def)
next
  case (Cons a cs)
  from Cons.prems have "contentMap_set (cm(content_id a \<mapsto> a)) cs k = Some c"
    by (simp add: contentMap_set_def)
  from Cons.IH [OF this] show ?case
    by (auto split: if_splits)
qed

lemma contentMap_set_None:
  "contentMap_set cm cs k = None \<longleftrightarrow> cm k = None \<and> k \<notin> content_id ` set cs"
  unfolding contentMap_set_def
  by (induction cs arbitrary: cm) auto

lemma contentMap_Some:
  assumes "contentMap ms ts ids k = Some c"
  shows "content_id c = k \<and>
         ((\<exists>d \<in> set ms. c = MovieContent d \<and> (\<exists>i \<in> set ids. contentId i = k \<and> contentType i = Movie))
          \<or> (\<exists>d \<in> set ts. c = TVShowContent d \<and> (\<exists>i \<in> set ids. contentId i = k \<and> contentType i = TVShow)))"
proof -
  from assms have
    "(c \<in> MovieContent ` {d \<in> set ms. mv_id d \<in> contentId ` {i \<in> set ids. contentType i = Movie}} \<and> content_id c = k)
     \<or> (c \<in> TVShowContent ` {d \<in> set ts. tv_id d \<in> contentId ` {i \<in> set ids. contentType i = TVShow}} \<and> content_id c = k)"
    unfolding contentMap_def Let_def
    by (auto dest!: contentMap_set_Some split: if_splits)
  then show ?thesis by auto
qed

lemma contentMap_None:
  "contentMap ms ts ids k = None \<longleftrightarrow>
     \<not> (((\<exists>d \<in> set ms. mv_id d = k) \<and> (\<exists>i \<in> set ids. contentId i = k \<and> contentType i = Movie))
     \<or> ((\<exists>d \<in> set ts. tv_id d = k) \<and> (\<exists>i \<in> set ids. contentId i = k \<and> contentType i = TVShow)))"
  unfolding contentMap_def Let_def
  by (auto simp: contentMap_set_None image_iff filter_empty_conv)

lemma contentExists_iff:
  "contentExists ms ts cid ct \<longleftrightarrow>
     (if ct = Movie then \<exists>d \<in> set ms. mv_id d = cid else \<exists>d \<in> set ts. tv_id d = cid)"
  by (auto simp: contentExists_def filter_empty_conv)

lemma map_filter_cong_set:
  "(\<And>x. x \<in> set xs \<Longrightarrow> f x = g x) \<Longrightarrow> List.map_filter f xs = List.map_filter g xs"
  by (induction xs) (auto simp: map_filter_simps split: option.splits)

lemma find_findContentsByIds:
  "find (\<lambda>c. content_id c = cid) (findContentsByIds ms ts ids)
     = (if cid \<in> contentId ` set ids then contentMap ms ts ids cid else None)"
proof -
  define cm where "cm = contentMap ms ts ids"
  have key: "content_id c = k" if "cm k = Some c" for k c
    using that unfolding cm_def by (auto dest: contentMap_Some)
  have "find (\<lambda>c. content_id c = cid) (List.map_filter (\<lambda>item. cm (contentId item)) xs)
     = (if cid \<in> contentId ` set xs then cm cid else None)" for xs
  proof (induction xs)
    case Nil
    then show ?case by (simp add: map_filter_simps)
  next
    case (Cons x xs)
    show ?case
    proof (cases "cm (contentId x)")
      case None
      with Cons show ?thesis by (auto simp: map_filter_simps)
    next
      case (Some a)
      with key have "content_id a = contentId x" by simp
      with Some Cons show ?thesis by (auto simp: map_filter_simps)
    qed
  qed
  from this [of ids] show ?thesis
    unfolding findContentsByIds_def cm_def .
qed

lemma itemsWithDetails_contentMap:
  "itemsWithDetails (findContentsByIds ms ts ids) its
     = List.map_filter (\<lambda>item. if contentId item \<in> contentId ` set ids
          then map_option (withDetails item) (contentMap ms ts ids (contentId item)) else None) its"
  unfolding itemsWithDetails_def find_findContentsByIds
  by (rule map_filter_cong_set) (auto split: option.splits)

lemma assemblePage_cache [simp]: "assemblePage (w\<lparr>cache := c\<rparr>) uid pg lmt ct = assemblePage w uid pg lmt ct"
  by (simp add: assemblePage_def Let_def)

lemma getCachedList_world: "\<exists>c. snd (getCachedList e w uid pg lmt ct) = w\<lparr>cache := c\<rparr>"
proof (cases "cache w")
  case None
  then have "snd (getCachedList e w uid pg lmt ct) = w\<lparr>cache := None\<rparr>"
    by (simp add: getCachedList_def)
  then show ?thesis ..
next
  case (Some c)
  show ?thesis
  proof (cases "cacheGetThrows e")
    case True
    with Some have "snd (getCachedList e w uid pg lmt ct) = w\<lparr>cache := Some c\<rparr>"
      by (simp add: getCachedList_def)
    then show ?thesis ..
  next
    case False
    obtain r c' where "InMemoryCacheService_get c (getListCacheKey uid pg lmt ct) (now e) = (r, c')"
      by (cases "InMemoryCacheService_get c (getListCacheKey uid pg lmt ct) (now e)")
    with Some False have "snd (getCachedList e w uid pg lmt ct) = w\<lparr>cache := Some c'\<rparr>"
      by (simp add: getCachedList_def)
    then show ?thesis ..
  qed
qed

lemma getMyList_miss:
  assumes "fst (getCachedList e w uid (query_page_or_default q) (query_limit_or_default q) (query_contentType q)) = None"
  shows "fst (getMyList e w uid q)
    = assemblePage w uid (query_page_or_default q) (query_limit_or_default q) (query_contentType q)"
proof -
  let ?g = "getCachedList e w uid (query_page_or_default q) (query_limit_or_default q) (query_contentType q)"
  obtain c where c: "snd ?g = w\<lparr>cache := c\<rparr>"
    using getCachedList_world by blast
  with assms have "?g = (None, w\<lparr>cache := c\<rparr>)"
    by (metis prod.collapse)
  then show ?thesis
    by (simp add: getMyList_def Let_def)
qed

lemma data_assemblePage:
  "data (assemblePage w uid pg lmt ct) =
     (let its = itemsToProcess (result_items (getItemsPaginated (mylists w) uid pg lmt)) ct
      in itemsWithDetails (findContentsByIds (movies w) (tvshows w)
           (map (\<lambda>item. \<lparr>contentId = contentId item, contentType = contentType item\<rparr>) its)) its)"
proof (cases "result_items (getItemsPaginated (mylists w) uid pg lmt) = []")
  case True
  then show ?thesis
    by (cases ct) (simp_all add: assemblePage_def Let_def itemsToProcess_def itemsWithDetails_def map_filter_simps)
next
  case False
  then show ?thesis
    by (simp add: assemblePage_def Let_def)
qed

lemma list_all2_filter_map_filter:
  "(\<And>x. x \<in> set xs \<Longrightarrow> (P x \<longleftrightarrow> f x \<noteq> None)) \<Longrightarrow>
   (\<And>x y. x \<in> set xs \<Longrightarrow> f x = Some y \<Longrightarrow> R x y) \<Longrightarrow>
   list_all2 R (filter P xs) (List.map_filter f xs)"
  by (induction xs) (auto simp: map_filter_simps split: option.splits)

lemma length_filter_map_filter:
  "(\<And>x. x \<in> set xs \<Longrightarrow> (P x \<longleftrightarrow> f x \<noteq> None)) \<Longrightarrow>
   length (List.map_filter f xs) = length (filter P xs)"
  by (induction xs) (auto simp: map_filter_simps split: option.splits)

lemma set_slice: "set (slice xs a b) \<subseteq> set xs"
  unfolding slice_def Let_def
  by (meson set_take_subset set_drop_subset subset_trans)

lemma set_result_items:
  "mylists w uid = Some d \<Longrightarrow> set (result_items (getItemsPaginated (mylists w) uid pg lmt)) \<subseteq> set (items d)"
  using set_slice [of "sort_key (\<lambda>i. - addedAt i) (items d)"]
  by (simp add: getItemsPaginated_def Let_def)

lemma result_items_no_list:
  "mylists w uid = None \<Longrightarrow> result_items (getItemsPaginated (mylists w) uid pg lmt) = []"
  by (simp add: getItemsPaginated_def)

lemma set_itemsToProcess: "set (itemsToProcess its ct) \<subseteq> set its"
  by (cases ct) (auto simp: itemsToProcess_def)

lemma ids_mem:
  fixes its :: "MyListItem list"
  assumes item: "item \<in> set its"
    and same: "\<And>i. i \<in> set its \<Longrightarrow> contentId i = contentId item \<Longrightarrow> contentType i = contentType item"
  shows "(\<exists>i \<in> set (map (\<lambda>item. \<lparr>contentId = contentId item, contentType = contentType item\<rparr>) its).
            contentId i = contentId item \<and> contentType i = t) \<longleftrightarrow> contentType item = t"
proof
  assume "\<exists>i \<in> set (map (\<lambda>item. \<lparr>contentId = contentId item, contentType = contentType item\<rparr>) its).
            contentId i = contentId item \<and> contentType i = t"
  then obtain j where "j \<in> set its" "contentId j = contentId item" "contentType j = t"
    by auto
  with same show "contentType item = t" by simp
next
  assume "contentType item = t"
  with item show "\<exists>i \<in> set (map (\<lambda>item. \<lparr>contentId = contentId item, contentType = contentType item\<rparr>) its).
            contentId i = contentId item \<and> contentType i = t"
    by (intro bexI [of _ "\<lparr>contentId = contentId item, contentType = contentType item\<rparr>"]) auto
qed

lemma resolve_item_iff:
  fixes its :: "MyListItem list"
  assumes item: "item \<in> set its"
    and same: "\<And>i. i \<in> set its \<Longrightarrow> contentId i = contentId item \<Longrightarrow> contentType i = contentType item"
  shows "contentMap ms ts (map (\<lambda>item. \<lparr>contentId = contentId item, contentType = contentType item\<rparr>) its) (contentId item) = None
           \<longleftrightarrow> \<not> contentExists ms ts (contentId item) (contentType item)"
proof -
  note mem = ids_mem [OF item same]
  show ?thesis
  proof (cases "contentType item")
    case Movie
    have m1: "(\<exists>i \<in> set (map (\<lambda>item. \<lparr>contentId = contentId item, contentType = contentType item\<rparr>) its).
            contentId i = contentId item \<and> contentType i = Movie)"
      using mem [of Movie] Movie by simp
    have m2: "\<not> (\<exists>i \<in> set (map (\<lambda>item. \<lparr>contentId = contentId item, contentType = contentType item\<rparr>) its).
            contentId i = contentId item \<and> contentType i = TVShow)"
      using mem [of TVShow] Movie by simp
    show ?thesis
      unfolding contentMap_None contentExists_iff using m1 m2 Movie by simp
  next
    case TVShow
    have m1: "(\<exists>i \<in> set (map (\<lambda>item. \<lparr>contentId = contentId item, contentType = contentType item\<rparr>) its).
            contentId i = contentId item \<and> contentType i = TVShow)"
      using mem [of TVShow] TVShow by simp
    have m2: "\<not> (\<exists>i \<in> set (map (\<lambda>item. \<lparr>contentId = contentId item, contentType = contentType item\<rparr>) its).
            contentId i = contentId item \<and> contentType i = Movie)"
      using mem [of Movie] TVShow by simp
    show ?thesis
      unfolding contentMap_None contentExists_iff using m1 m2 TVShow by simp
  qed
qed

lemma resolve_item_Some:
  fixes its :: "MyListItem list"
  assumes item: "item \<in> set its"
    and same: "\<And>i. i \<in> set its \<Longrightarrow> contentId i = contentId item \<Longrightarrow> contentType i = contentType item"
    and c: "contentMap ms ts (map (\<lambda>item. \<lparr>contentId = contentId item, contentType = contentType item\<rparr>) its) (contentId item) = Some c"
  shows "(\<exists>d \<in> set ms. contentType item = Movie \<and> mv_id d = contentId item \<and> c = MovieContent d)
           \<or> (\<exists>d \<in> set ts. contentType item = TVShow \<and> tv_id d = contentId item \<and> c = TVShowContent d)"
proof -
  note mem = ids_mem [OF item same]
  from contentMap_Some [OF c] have id: "content_id c = contentId item"
    and disj: "(\<exists>d \<in> set ms. c = MovieContent d \<and> contentType item = Movie)
          \<or> (\<exists>d \<in> set ts. c = TVShowContent d \<and> contentType item = TVShow)"
    using mem [of Movie] mem [of TVShow] by blast+
  from disj show ?thesis
  proof
    assume "\<exists>d \<in> set ms. c = MovieContent d \<and> contentType item = Movie"
    then obtain d where "d \<in> set ms" "c = MovieContent d" "contentType item = Movie" by blast
    with id show ?thesis by auto
  next
    assume "\<exists>d \<in> set ts. c = TVShowContent d \<and> contentType item = TVShow"
    then obtain d where "d \<in> set ts" "c = TVShowContent d" "contentType item = TVShow" by blast
    with id show ?thesis by auto
  qed
qed

lemma data_assemblePage_resolved:
  assumes same: "\<And>i j. i \<in> set (itemsToProcess (result_items (getItemsPaginated (mylists w) uid pg lmt)) ct) \<Longrightarrow>
                   j \<in> set (itemsToProcess (result_items (getItemsPaginated (mylists w) uid pg lmt)) ct) \<Longrightarrow>
                   contentId i = contentId j \<Longrightarrow> contentType i = contentType j"
  shows "list_all2 (page_entry w)
           (filter (\<lambda>i. contentExists (movies w) (tvshows w) (contentId i) (contentType i))
              (itemsToProcess (result_items (getItemsPaginated (mylists w) uid pg lmt)) ct))
           (data (assemblePage w uid pg lmt ct))"
proof -
  define its where "its = itemsToProcess (result_items (getItemsPaginated (mylists w) uid pg lmt)) ct"
  define ids where "ids = map (\<lambda>item. \<lparr>contentId = contentId item, contentType = contentType item\<rparr>) its"
  define cm where "cm = contentMap (movies w) (tvshows w) ids"
  define f where "f = (\<lambda>item. if contentId item \<in> contentId ` set ids
          then map_option (withDetails item) (cm (contentId item)) else None)"
  have d: "data (assemblePage w uid pg lmt ct) = List.map_filter f its"
    unfolding data_assemblePage f_def cm_def ids_def its_def Let_def
    by (rule itemsWithDetails_contentMap)
  have inids: "contentId item \<in> contentId ` set ids" if "item \<in> set its" for item
    using that unfolding ids_def by force
  have f_eq: "f item = map_option (withDetails item) (cm (contentId item))" if "item \<in> set its" for item
    using inids [OF that] by (simp add: f_def)
  have s: "contentType i = contentType item" if "item \<in> set its" "i \<in> set its" "contentId i = contentId item" for i item
    using same that unfolding its_def by blast
  have p: "contentExists (movies w) (tvshows w) (contentId item) (contentType item) \<longleftrightarrow> f item \<noteq> None"
    if "item \<in> set its" for item
  proof -
    have "cm (contentId item) = None \<longleftrightarrow> \<not> contentExists (movies w) (tvshows w) (contentId item) (contentType item)"
      unfolding cm_def ids_def
      by (rule resolve_item_iff [OF that]) (rule s [OF that])
    then show ?thesis by (simp add: f_eq [OF that])
  qed
  have r: "page_entry w item x" if "item \<in> set its" "f item = Some x" for item x
  proof -
    from that obtain c where c: "cm (contentId item) = Some c" and x: "x = withDetails item c"
      by (auto simp: f_eq)
    have "(\<exists>d \<in> set (movies w). contentType item = Movie \<and> mv_id d = contentId item \<and> c = MovieContent d)
           \<or> (\<exists>d \<in> set (tvshows w). contentType item = TVShow \<and> tv_id d = contentId item \<and> c = TVShowContent d)"
      by (rule resolve_item_Some [OF that(1)]) (rule s [OF that(1)], assumption+, rule c [unfolded cm_def ids_def])
    then show ?thesis unfolding x page_entry_def by blast
  qed
  show ?thesis
    unfolding d its_def [symmetric]
  proof (rule list_all2_filter_map_filter)
    fix x assume "x \<in> set its" then show "contentExists (movies w) (tvshows w) (contentId x) (contentType x) = (f x \<noteq> None)"
      by (rule p)
  next
    fix x y assume "x \<in> set its" "f x = Some y" then show "page_entry w x y" by (rule r)
  qed
qed

lemma page_same_type:
  assumes uniq: "\<forall>d. mylists w uid = Some d \<longrightarrow> distinct (map contentId (items d))"
    and i: "i \<in> set (itemsToProcess (result_items (getItemsPaginated (mylists w) uid pg lmt)) ct)"
    and j: "j \<in> set (itemsToProcess (result_items (getItemsPaginated (mylists w) uid pg lmt)) ct)"
    and eq: "contentId i = contentId j"
  shows "contentType i = contentType j"
proof (cases "mylists w uid")
  case None
  with i show ?thesis
    by (simp add: result_items_no_list itemsToProcess_def split: option.splits)
next
  case (Some d)
  from i j set_itemsToProcess set_result_items [OF Some]
  have "i \<in> set (items d)" "j \<in> set (items d)" by blast+
  moreover from uniq Some have "inj_on contentId (set (items d))"
    by (simp add: distinct_map)
  ultimately have "i = j" using eq by (rule inj_onD [rotated 2])
  then show ?thesis by simp
qed

lemmas example_defs = world0_def world1_def env0_def query0_def list_u1_def movie1_def movie2_def tvshow1_def

text \<open>The fields of an element of a returned page, written out.\<close>

lemma page_entry_fields:
  assumes "page_entry w item x"
  shows "(\<exists>d \<in> set (movies w). contentType item = Movie \<and> mv_id d = contentId item
            \<and> x = \<lparr>contentId = contentId item, contentType = Movie, addedAt = addedAt item,
                   title = mv_title d, description = mv_description d, genres = mv_genres d,
                   releaseDate = Some (mv_releaseDate d), director = Some (mv_director d),
                   actors = Some (mv_actors d), episodeCount = None\<rparr>)
         \<or> (\<exists>d \<in> set (tvshows w). contentType item = TVShow \<and> tv_id d = contentId item
            \<and> x = \<lparr>contentId = contentId item, contentType = TVShow, addedAt = addedAt item,
                   title = tv_title d, description = tv_description d, genres = tv_genres d,
                   releaseDate = None, director = None, actors = None,
                   episodeCount = Some (length (tv_episodes d))\<rparr>)"
  using assms unfolding page_entry_def by auto

lemma miss0: "fst (getCachedList env0 world1 ''u1'' 1 10 None) = None"
  by (simp add: getCachedList_def InMemoryCacheService_get_def example_defs)

lemma page1: "result_items (getItemsPaginated (mylists world1) ''u1'' 1 10) =
   [\<lparr>contentId = ''tvshow-1'', contentType = TVShow, addedAt = 20\<rparr>,
    \<lparr>contentId = ''movie-1'', contentType = Movie, addedAt = 10\<rparr>]"
  by (simp add: getItemsPaginated_def slice_def Let_def example_defs)


lemma pagination_assemblePage_filtered:
  assumes ne: "result_items (getItemsPaginated (mylists w) uid pg lmt) \<noteq> []"
  shows "pagination (assemblePage w uid pg lmt (Some t)) =
     \<lparr>page = pg, limit = lmt,
      total = int (length (data (assemblePage w uid pg lmt (Some t)))),
      totalPages = ceil_div (int (length (data (assemblePage w uid pg lmt (Some t))))) lmt,
      hasNextPage = (pg < ceil_div (int (length (data (assemblePage w uid pg lmt (Some t))))) lmt),
      hasPreviousPage = (pg > 1)\<rparr>"
proof -
  have pl: "page (result_pagination (getItemsPaginated (mylists w) uid pg lmt)) = pg"
    "limit (result_pagination (getItemsPaginated (mylists w) uid pg lmt)) = lmt"
    by (simp_all add: getItemsPaginated_def Let_def split: option.splits)
  show ?thesis
    using ne pl by (simp add: assemblePage_def Let_def)
qed

lemma length_data_filtered:
  "length (data (assemblePage w uid pg lmt (Some t))) =
     length (filter (\<lambda>i. contentType i = t \<and> contentExists (movies w) (tvshows w) (contentId i) t)
               (result_items (getItemsPaginated (mylists w) uid pg lmt)))"
proof -
  have same: "contentType i = contentType j"
    if "i \<in> set (itemsToProcess (result_items (getItemsPaginated (mylists w) uid pg lmt)) (Some t))"
       "j \<in> set (itemsToProcess (result_items (getItemsPaginated (mylists w) uid pg lmt)) (Some t))" for i j
    using that by (simp add: itemsToProcess_def)
  have "length (data (assemblePage w uid pg lmt (Some t))) =
        length (filter (\<lambda>i. contentExists (movies w) (tvshows w) (contentId i) (contentType i))
              (itemsToProcess (result_items (getItemsPaginated (mylists w) uid pg lmt)) (Some t)))"
    by (rule list_all2_lengthD [symmetric], rule data_assemblePage_resolved) (rule same)
  also have "\<dots> = length (filter (\<lambda>i. contentType i = t \<and> contentExists (movies w) (tvshows w) (contentId i) t)
               (result_items (getItemsPaginated (mylists w) uid pg lmt)))"
    unfolding itemsToProcess_def option.case filter_filter
    by (rule arg_cong [where f = length], rule filter_cong) auto
  finally show ?thesis .
qed

section \<open>Properties of the service operations\<close>

lemma invalidateUserList_mylists [simp]: "mylists (invalidateUserList e w uid) = mylists w"
  by (simp add: invalidateUserList_def split: option.splits)

lemma setCachedList_mylists [simp]: "mylists (setCachedList e w uid pg lmt v ct) = mylists w"
  by (simp add: setCachedList_def split: option.splits)

lemma getCachedList_mylists [simp]: "mylists (snd (getCachedList e w uid pg lmt ct)) = mylists w"
proof -
  obtain c where "snd (getCachedList e w uid pg lmt ct) = w\<lparr>cache := c\<rparr>"
    using getCachedList_world by blast
  then show ?thesis by simp
qed

lemma getMyList_mylists: "mylists (snd (getMyList e w uid q)) = mylists w"
proof -
  let ?g = "getCachedList e w uid (query_page_or_default q) (query_limit_or_default q) (query_contentType q)"
  have m: "mylists (snd ?g) = mylists w" by simp
  obtain r w' where g: "?g = (r, w')" by (cases ?g)
  with m have "mylists w' = mylists w" by simp
  with g show ?thesis
    by (cases r) (simp_all add: getMyList_def Let_def)
qed

lemma addToMyList_Inr:
  assumes "fst (addToMyList e w uid request) = Inr ()"
  shows "\<exists>d. fst (snd (addToMyList e w uid request))
                = invalidateUserList e (w\<lparr>mylists := (mylists w)(uid \<mapsto> d)\<rparr>) uid
              \<and> updatedAt d = now e \<and> hasItem d (contentId request)"
proof -
  let ?item = "\<lparr>contentId = contentId request, contentType = contentType request, addedAt = now e\<rparr>"
  from assms have a: "uid \<in> users w" "\<not> itemExists (mylists w) uid (contentId request)"
    "contentExists (movies w) (tvshows w) (contentId request) (contentType request)"
    by (auto simp: addToMyList_def split: if_splits)
  from addItem_fresh [of "mylists w" uid ?item "now e"] a(2)
  obtain d where "addItem (mylists w) uid ?item (now e) = (Inr (), (mylists w)(uid \<mapsto> d))"
    "updatedAt d = now e" "hasItem d (contentId request)"
    by auto
  with a show ?thesis by (auto simp: addToMyList_def)
qed

lemma addToMyList_Inl:
  assumes "fst (addToMyList e w uid request) = Inl err"
  shows "fst (snd (addToMyList e w uid request)) = w"
proof (cases "uid \<in> users w \<and> contentExists (movies w) (tvshows w) (contentId request) (contentType request)
        \<and> \<not> itemExists (mylists w) uid (contentId request)")
  case True
  let ?item = "\<lparr>contentId = contentId request, contentType = contentType request, addedAt = now e\<rparr>"
  from addItem_fresh [of "mylists w" uid ?item "now e"] True
  obtain d where "addItem (mylists w) uid ?item (now e) = (Inr (), (mylists w)(uid \<mapsto> d))"
    by auto
  with True have "fst (addToMyList e w uid request) = Inr ()" by (simp add: addToMyList_def)
  with assms show ?thesis by simp
next
  case False
  then show ?thesis by (auto simp: addToMyList_def)
qed

lemma removeFromMyList_Some:
  assumes "mylists w uid = Some d"
  shows "removeFromMyList e w uid cid =
           (Inr (),
            invalidateUserList e
              (w\<lparr>mylists := (mylists w)(uid \<mapsto> d\<lparr>items := filter (\<lambda>i. contentId i \<noteq> cid) (items d),
                                                     updatedAt := now e\<rparr>)\<rparr>) uid,
            [RemoveItem uid cid, InvalidateUserList uid])"
  using assms
  by (simp add: removeFromMyList_def removeItem_def findOneAndUpdate_pull_def hasItem_def list_ex_iff Let_def)

lemma removeFromMyList_None:
  assumes "mylists w uid = None"
  shows "removeFromMyList e w uid cid = (Inl (ItemNotFoundError cid), w, [RemoveItem uid cid])"
  using assms
  by (simp add: removeFromMyList_def removeItem_def findOneAndUpdate_pull_def)

lemma invalidateUserList_flags:
  "mylists (invalidateUserList e' w uid) = mylists (invalidateUserList e w uid)"
  by simp

lemma addToMyList_flags:
  assumes "now e' = now e"
  shows "fst (addToMyList e' w uid request) = fst (addToMyList e w uid request)"
    and "mylists (fst (snd (addToMyList e' w uid request))) = mylists (fst (snd (addToMyList e w uid request)))"
    and "snd (snd (addToMyList e' w uid request)) = snd (snd (addToMyList e w uid request))"
  using assms by (auto simp: addToMyList_def Let_def split: prod.splits sum.splits)

lemma removeFromMyList_flags:
  assumes "now e' = now e"
  shows "fst (removeFromMyList e' w uid cid) = fst (removeFromMyList e w uid cid)"
    and "mylists (fst (snd (removeFromMyList e' w uid cid))) = mylists (fst (snd (removeFromMyList e w uid cid)))"
    and "snd (snd (removeFromMyList e' w uid cid)) = snd (snd (removeFromMyList e w uid cid))"
  using assms by (auto simp: removeFromMyList_def split: prod.splits)

lemma getCachedList_throws:
  "cacheGetThrows e \<Longrightarrow> getCachedList e w uid pg lmt ct = (None, w)"
  by (simp add: getCachedList_def split: option.splits)

lemma getMyList_get_throws:
  "cacheGetThrows e \<Longrightarrow>
   fst (getMyList e w uid q)
     = assemblePage w uid (query_page_or_default q) (query_limit_or_default q) (query_contentType q)"
  by (rule getMyList_miss) (simp add: getCachedList_throws)

lemma getCachedList_set_flag:
  "getCachedList (e\<lparr>cacheSetThrows := s, cacheDeleteThrows := d\<rparr>) w uid pg lmt ct = getCachedList e w uid pg lmt ct"
  by (cases "cache w") (simp_all add: getCachedList_def)

lemma getMyList_set_flag:
  "fst (getMyList (e\<lparr>cacheSetThrows := s, cacheDeleteThrows := d\<rparr>) w uid q) = fst (getMyList e w uid q)"
proof -
  let ?g = "getCachedList e w uid (query_page_or_default q) (query_limit_or_default q) (query_contentType q)"
  obtain r w' where g: "?g = (r, w')" by (cases ?g)
  then show ?thesis
    by (cases r) (simp_all add: getMyList_def Let_def getCachedList_set_flag)
qed


text \<open>The calls keep the content ids of every stored list distinct.\<close>

lemma addItem_fresh_items:
  assumes "\<not> itemExists m uid (contentId item)"
  shows "\<exists>d. addItem m uid item t = (Inr (), m(uid \<mapsto> d))
           \<and> items d = (case m uid of None \<Rightarrow> [] | Some d0 \<Rightarrow> items d0) @ [item]"
  using assms
  by (auto simp: addItem_def findOneAndUpdate_push_def itemExists_def hasItem_def Let_def split: option.splits)

lemma unique_ids_add:
  assumes "unique_ids w"
  shows "unique_ids (fst (snd (addToMyList e w uid request)))"
proof (cases "uid \<in> users w \<and> contentExists (movies w) (tvshows w) (contentId request) (contentType request)
        \<and> \<not> itemExists (mylists w) uid (contentId request)")
  case False
  with assms show ?thesis by (auto simp: addToMyList_def)
next
  case True
  let ?item = "\<lparr>contentId = contentId request, contentType = contentType request, addedAt = now e\<rparr>"
  from True have n: "\<not> itemExists (mylists w) uid (contentId ?item)" by simp
  from addItem_fresh_items [OF n, of "now e"] obtain d where
    a: "addItem (mylists w) uid ?item (now e) = (Inr (), (mylists w)(uid \<mapsto> d))"
    and i: "items d = (case mylists w uid of None \<Rightarrow> [] | Some d0 \<Rightarrow> items d0) @ [?item]"
    by blast
  have "distinct (map contentId (items d))"
  proof (cases "mylists w uid")
    case None
    with i show ?thesis by simp
  next
    case (Some d0)
    with assms have "distinct (map contentId (items d0))" by (simp add: unique_ids_def)
    moreover from n Some have "contentId request \<notin> contentId ` set (items d0)"
      by (simp add: itemExists_def hasItem_iff)
    ultimately show ?thesis using i Some by simp
  qed
  with assms have "unique_ids (w\<lparr>mylists := (mylists w)(uid \<mapsto> d)\<rparr>)"
    by (simp add: unique_ids_def)
  then have "unique_ids (invalidateUserList e (w\<lparr>mylists := (mylists w)(uid \<mapsto> d)\<rparr>) uid)"
    by (simp add: unique_ids_def)
  with True a show ?thesis by (simp add: addToMyList_def)
qed

lemma unique_ids_remove:
  assumes "unique_ids w"
  shows "unique_ids (fst (snd (removeFromMyList e w uid cid)))"
proof (cases "mylists w uid")
  case None
  with assms show ?thesis by (simp add: removeFromMyList_None)
next
  case (Some d)
  from assms Some have "distinct (map contentId (items d))" by (simp add: unique_ids_def)
  then have "distinct (map contentId (filter (\<lambda>i. contentId i \<noteq> cid) (items d)))"
    by (rule distinct_map_filter)
  with assms show ?thesis
    unfolding removeFromMyList_Some [OF Some] by (simp add: unique_ids_def)
qed

lemma unique_ids_get: "unique_ids w \<Longrightarrow> unique_ids (snd (getMyList e w uid q))"
  by (simp add: unique_ids_def getMyList_mylists)

lemma unique_ids_perform: "unique_ids w \<Longrightarrow> unique_ids (perform e op w)"
proof (cases op)
  case (AddToList u r)
  assume "unique_ids w"
  with AddToList show ?thesis using unique_ids_add [of w e u r] by simp
next
  case (RemoveFromList u c)
  assume "unique_ids w"
  with RemoveFromList show ?thesis using unique_ids_remove [of w e u c] by simp
next
  case (GetList u q)
  assume "unique_ids w"
  with GetList show ?thesis using unique_ids_get [of w e u q] by simp
qed

lemma unique_ids_run: "unique_ids w \<Longrightarrow> unique_ids (run ops w)"
proof (induction ops arbitrary: w)
  case Nil
  then show ?case by simp
next
  case (Cons x ops)
  obtain e op where "x = (e, op)" by (cases x)
  with Cons show ?case by (simp add: unique_ids_perform)
qed

section \<open>Properties of the cache keys and of what a mutation leaves alone\<close>

lemma fst_getCachedList:
  "fst (getCachedList e w uid pg lmt ct) =
     (if cacheGetThrows e then None
      else case cache_entry w (getListCacheKey uid pg lmt ct) of
             None \<Rightarrow> None
           | Some en \<Rightarrow> if expired en (now e) then None else Some (entry_value en))"
  by (cases "cache w")
     (simp_all add: getCachedList_def cache_entry_def InMemoryCacheService_get_def split: option.splits)

lemma fst_getMyList:
  "fst (getMyList e w uid q) =
     (case fst (getCachedList e w uid (query_page_or_default q) (query_limit_or_default q) (query_contentType q)) of
        Some cached \<Rightarrow> cached
      | None \<Rightarrow> assemblePage w uid (query_page_or_default q) (query_limit_or_default q) (query_contentType q))"
proof -
  let ?g = "getCachedList e w uid (query_page_or_default q) (query_limit_or_default q) (query_contentType q)"
  show ?thesis
  proof (cases "fst ?g")
    case None
    then show ?thesis by (simp add: getMyList_miss)
  next
    case (Some cached)
    obtain w' where "?g = (Some cached, w')"
      using Some by (cases ?g) auto
    then show ?thesis by (simp add: getMyList_def Let_def)
  qed
qed

lemma assemblePage_cong:
  "mylists w1 uid = mylists w2 uid \<Longrightarrow> movies w1 = movies w2 \<Longrightarrow> tvshows w1 = tvshows w2 \<Longrightarrow>
   assemblePage w1 uid pg lmt ct = assemblePage w2 uid pg lmt ct"
proof -
  assume a: "mylists w1 uid = mylists w2 uid" "movies w1 = movies w2" "tvshows w1 = tvshows w2"
  have "getItemsPaginated (mylists w1) uid pg lmt = getItemsPaginated (mylists w2) uid pg lmt"
    using a(1) by (simp add: getItemsPaginated_def)
  then show ?thesis
    unfolding assemblePage_def a(2,3) by simp
qed

lemma getMyList_cong:
  assumes "mylists w1 uid = mylists w2 uid" "movies w1 = movies w2" "tvshows w1 = tvshows w2"
    and "cache_entry w1 (getListCacheKey uid (query_page_or_default q) (query_limit_or_default q) (query_contentType q))
       = cache_entry w2 (getListCacheKey uid (query_page_or_default q) (query_limit_or_default q) (query_contentType q))"
  shows "fst (getMyList e w1 uid q) = fst (getMyList e w2 uid q)"
  unfolding fst_getMyList fst_getCachedList assms(4) assemblePage_cong [OF assms(1-3)] ..

lemma cache_entry_invalidate:
  "cache_entry (invalidateUserList e w uid) key =
     (if \<not> cacheDeleteThrows e \<and> regExpTest e (replaceStars (getUserCachePattern uid)) key then None
      else cache_entry w key)"
  by (cases "cache w") (simp_all add: invalidateUserList_def cache_entry_def InMemoryCacheService_deletePattern_def)

lemma invalidateUserList_catalogue [simp]:
  "movies (invalidateUserList e w uid) = movies w" "tvshows (invalidateUserList e w uid) = tvshows w"
  "users (invalidateUserList e w uid) = users w"
  by (simp_all add: invalidateUserList_def split: option.splits)

lemma cache_entry_mylists_update [simp]: "cache_entry (w\<lparr>mylists := m\<rparr>) key = cache_entry w key"
  by (simp add: cache_entry_def)

lemma addToMyList_world:
  "fst (snd (addToMyList e w uid request)) = w
   \<or> (\<exists>d. fst (snd (addToMyList e w uid request))
             = invalidateUserList e (w\<lparr>mylists := (mylists w)(uid \<mapsto> d)\<rparr>) uid)"
proof (cases "fst (addToMyList e w uid request)")
  case (Inl err)
  then show ?thesis by (simp add: addToMyList_Inl)
next
  case (Inr u)
  then have "fst (addToMyList e w uid request) = Inr ()" by simp
  from addToMyList_Inr [OF this] show ?thesis by blast
qed

lemma removeFromMyList_world:
  "fst (snd (removeFromMyList e w uid cid)) = w
   \<or> (\<exists>d. fst (snd (removeFromMyList e w uid cid))
             = invalidateUserList e (w\<lparr>mylists := (mylists w)(uid \<mapsto> d)\<rparr>) uid)"
proof (cases "mylists w uid")
  case None
  then show ?thesis by (simp add: removeFromMyList_None)
next
  case (Some d)
  then show ?thesis unfolding removeFromMyList_Some [OF Some] by auto
qed

text \<open>What a mutation for one user leaves alone: the frame of the two operations.\<close>

lemma mutation_frame:
  assumes w': "w' = w \<or> (\<exists>d. w' = invalidateUserList e (w\<lparr>mylists := (mylists w)(u \<mapsto> d)\<rparr>) u)"
  shows "movies w' = movies w" "tvshows w' = tvshows w" "users w' = users w"
    and "u' \<noteq> u \<Longrightarrow> mylists w' u' = mylists w u'"
    and "\<not> regExpTest e (replaceStars (getUserCachePattern u)) key \<Longrightarrow> cache_entry w' key = cache_entry w key"
  using w' by (auto simp: cache_entry_invalidate)

lemma key_ab: "getListCacheKey ''a:b'' 1 10 None = ''mylist:a:b:1:10''"
  by (simp add: getListCacheKey_def int_to_string_def nat_to_string.simps digit_def)

lemma pattern_a: "replaceStars (getUserCachePattern ''a'') = ''mylist:a:.*''"
  by (simp add: getUserCachePattern_def replaceStars_def)

lemma match_ab: "literalRegExpTest ''mylist:a:.*'' ''mylist:a:b:1:10''"
  by (simp add: literalRegExpTest_def literalChar_def sublist_code prefix_code)

lemma q0: "query_page_or_default query0 = 1" "query_limit_or_default query0 = 10" "query_contentType query0 = None"
  by (simp_all add: query0_def query_page_or_default_def query_limit_or_default_def)

lemma world_ab_page:
  "getMyList env0 world_ab ''a:b'' query0 =
     (\<lparr>data = [], pagination = \<lparr>page = 1, limit = 10, total = 0, totalPages = 0,
                                 hasNextPage = False, hasPreviousPage = False\<rparr>\<rparr>,
      world_ab\<lparr>cache := Some [''mylist:a:b:1:10'' \<mapsto>
         \<lparr>entry_value = \<lparr>data = [], pagination = \<lparr>page = 1, limit = 10, total = 0, totalPages = 0,
                                 hasNextPage = False, hasPreviousPage = False\<rparr>\<rparr>,
          entry_expiry = Some 301000\<rparr>]\<rparr>)"
  by (simp add: getMyList_def q0 getCachedList_def InMemoryCacheService_get_def key_ab world_ab_def env0_def
      assemblePage_def getItemsPaginated_def setCachedList_def InMemoryCacheService_set_def CACHE_TTL_SECONDS_def Let_def)

lemma split_at_colon:
  assumes "xs @ c # ys = xs' @ c # ys'" "c \<notin> set xs" "c \<notin> set xs'"
  shows "xs = xs' \<and> ys = ys'"
  using assms
proof (induction xs arbitrary: xs')
  case Nil
  then show ?case by (cases xs') auto
next
  case (Cons x xs)
  then show ?case by (cases xs') auto
qed

lemma digit_chars: "d < 10 \<Longrightarrow> digit d \<in> set ''0123456789''"
  unfolding digit_def by (rule nth_mem) simp

lemma nat_to_string_chars: "set (nat_to_string n) \<subseteq> set ''0123456789''"
proof (induction n rule: nat_to_string.induct)
  case (1 n)
  show ?case
  proof (cases "n < 10")
    case True
    have "nat_to_string n = [digit n]" using True by (subst nat_to_string.simps) simp
    then show ?thesis using digit_chars [OF True] by simp
  next
    case False
    have m: "n mod 10 < 10" by simp
    have e: "nat_to_string n = nat_to_string (n div 10) @ [digit (n mod 10)]"
      using False by (subst nat_to_string.simps) simp
    show ?thesis
      unfolding e using digit_chars [OF m] 1 [OF False] by simp
  qed
qed

lemma int_to_string_chars: "set (int_to_string i) \<subseteq> set ''-0123456789''"
proof (cases "i < 0")
  case True
  have "set ''0123456789'' \<subseteq> set ''-0123456789''" by (rule set_subset_Cons)
  with nat_to_string_chars [of "nat (- i)"] have "set (nat_to_string (nat (- i))) \<subseteq> set ''-0123456789''"
    by (rule subset_trans)
  moreover have "CHR ''-'' \<in> set ''-0123456789''" by (rule list.set_intros)
  ultimately show ?thesis using True unfolding int_to_string_def by (simp only: if_True list.set insert_subset simp_thms)
next
  case False
  have "set ''0123456789'' \<subseteq> set ''-0123456789''" by (rule set_subset_Cons)
  with nat_to_string_chars [of "nat i"] have "set (nat_to_string (nat i)) \<subseteq> set ''-0123456789''"
    by (rule subset_trans)
  then show ?thesis using False unfolding int_to_string_def by (simp only: if_False)
qed

lemma not_m: "CHR ''m'' \<notin> set ''-0123456789''"
  by simp

lemma int_to_string_no_m: "CHR ''m'' \<notin> set (int_to_string i)"
  using int_to_string_chars [of i] not_m by (rule contra_subsetD)

lemma key_rest_chars:
  "CHR ''m'' \<notin> set (int_to_string pg @ '':'' @ int_to_string lmt
       @ (case ct of None \<Rightarrow> [] | Some t \<Rightarrow> '':'' @ contentType_string t))"
proof -
  have b: "CHR ''m'' \<notin> set (case ct of None \<Rightarrow> [] | Some t \<Rightarrow> '':'' @ contentType_string t)"
  proof (cases ct)
    case None
    then show ?thesis by simp
  next
    case (Some t)
    then show ?thesis by (cases t) simp_all
  qed
  from int_to_string_no_m [of pg] int_to_string_no_m [of lmt] b show ?thesis by simp
qed

lemma getListCacheKey_shape:
  "getListCacheKey uid pg lmt ct =
     ''mylist'' @ CHR '':'' # (uid @ CHR '':'' #
       (int_to_string pg @ '':'' @ int_to_string lmt
          @ (case ct of None \<Rightarrow> [] | Some t \<Rightarrow> '':'' @ contentType_string t)))"
  by (cases ct) (simp_all add: getListCacheKey_def)

lemma no_foreign_match:
  assumes u: "CHR '':'' \<notin> set u" and u': "CHR '':'' \<notin> set u'" and ne: "u \<noteq> u'"
    and sfx: "\<not> suffix ''mylist'' u'"
  shows "\<not> sublist (''mylist'' @ '':'' @ u @ '':'') (getListCacheKey u' pg lmt ct)"
proof
  define rest where "rest = int_to_string pg @ '':'' @ int_to_string lmt
          @ (case ct of None \<Rightarrow> [] | Some t \<Rightarrow> '':'' @ contentType_string t)"
  have m: "CHR ''m'' \<notin> set rest" unfolding rest_def by (rule key_rest_chars)
  assume "sublist (''mylist'' @ '':'' @ u @ '':'') (getListCacheKey u' pg lmt ct)"
  then obtain ps ss where "getListCacheKey u' pg lmt ct = ps @ (''mylist'' @ '':'' @ u @ '':'') @ ss"
    by (auto simp: sublist_def)
  then have k: "''mylist'' @ CHR '':'' # (u' @ CHR '':'' # rest) = ps @ ''mylist'' @ CHR '':'' # (u @ CHR '':'' # ss)"
    unfolding getListCacheKey_shape rest_def by simp
  show False
  proof (cases "CHR '':'' \<in> set ps")
    case False
    have "''mylist'' @ CHR '':'' # (u' @ CHR '':'' # rest) = (ps @ ''mylist'') @ CHR '':'' # (u @ CHR '':'' # ss)"
      using k by simp
    from split_at_colon [OF this] False
    have "u' @ CHR '':'' # rest = u @ CHR '':'' # ss" by auto
    from split_at_colon [OF this u' u] ne show False by simp
  next
    case True
    then obtain p1 p2 where ps: "ps = p1 @ CHR '':'' # p2" and p1: "CHR '':'' \<notin> set p1"
      by (auto dest: split_list_first)
    have "''mylist'' @ CHR '':'' # (u' @ CHR '':'' # rest) = p1 @ CHR '':'' # (p2 @ ''mylist'' @ CHR '':'' # (u @ CHR '':'' # ss))"
      using k ps by simp
    from split_at_colon [OF this _ p1]
    have k2: "u' @ CHR '':'' # rest = p2 @ ''mylist'' @ CHR '':'' # (u @ CHR '':'' # ss)" by simp
    show False
    proof (cases "CHR '':'' \<in> set p2")
      case False
      have "u' @ CHR '':'' # rest = (p2 @ ''mylist'') @ CHR '':'' # (u @ CHR '':'' # ss)"
        using k2 by simp
      from split_at_colon [OF this u'] False have "u' = p2 @ ''mylist''" by auto
      with sfx show False by (simp add: suffix_def)
    next
      case True
      then obtain p3 p4 where p2: "p2 = p3 @ CHR '':'' # p4" and p3: "CHR '':'' \<notin> set p3"
        by (auto dest: split_list_first)
      have "u' @ CHR '':'' # rest = p3 @ CHR '':'' # (p4 @ ''mylist'' @ CHR '':'' # (u @ CHR '':'' # ss))"
        using k2 p2 by simp
      from split_at_colon [OF this u' p3] have "rest = p4 @ ''mylist'' @ CHR '':'' # (u @ CHR '':'' # ss)"
        by simp
      then have "CHR ''m'' \<in> set rest" by simp
      with m show False by simp
    qed
  qed
qed

lemma replaceStars_literal: "list_all literalChar u \<Longrightarrow> replaceStars u = u"
  unfolding replaceStars_def
  by (induction u) (auto simp: literalChar_def)

lemma literal_pattern:
  assumes "list_all literalChar u"
  shows "literalRegExpTest (replaceStars (getUserCachePattern u)) key
           \<longleftrightarrow> sublist (''mylist'' @ '':'' @ u @ '':'') key"
proof -
  have r: "replaceStars (getUserCachePattern u) = (''mylist'' @ '':'' @ u @ '':'') @ ''.*''"
    using replaceStars_literal [OF assms]
    by (simp add: getUserCachePattern_def replaceStars_def)
  have l: "list_all literalChar (''mylist'' @ '':'' @ u @ '':'')"
    using assms by (simp add: literalChar_def)
  show ?thesis
    unfolding r literalRegExpTest_def Let_def using l by simp
qed

lemma world0_u2_page:
  "getMyList env0 world0 ''u2'' query0 =
     (\<lparr>data = [], pagination = \<lparr>page = 1, limit = 10, total = 0, totalPages = 0,
                                 hasNextPage = False, hasPreviousPage = False\<rparr>\<rparr>,
      world0\<lparr>cache := Some [''mylist:u2:1:10'' \<mapsto>
         \<lparr>entry_value = \<lparr>data = [], pagination = \<lparr>page = 1, limit = 10, total = 0, totalPages = 0,
                                 hasNextPage = False, hasPreviousPage = False\<rparr>\<rparr>,
          entry_expiry = Some 301000\<rparr>]\<rparr>)"
  by (simp add: getMyList_def q0 getCachedList_def InMemoryCacheService_get_def world0_def env0_def
      getListCacheKey_def int_to_string_def nat_to_string.simps digit_def
      assemblePage_def getItemsPaginated_def setCachedList_def InMemoryCacheService_set_def CACHE_TTL_SECONDS_def Let_def)

section \<open>Properties of the cache protocol\<close>








































section \<open>Properties of interleaved calls\<close>

lemma findOneAndUpdate_push_fresh:
  assumes "\<not> itemExists m uid (contentId item)"
  shows "\<exists>d. findOneAndUpdate_push m uid item t = (Inr d, m(uid \<mapsto> d)) \<and> hasItem d (contentId item)
           \<and> addItem m uid item t = (Inr (), m(uid \<mapsto> d))"
  using assms
  by (auto simp: addItem_def findOneAndUpdate_push_def itemExists_def hasItem_def Let_def split: option.splits)

lemma findOneAndUpdate_push_present:
  assumes "itemExists m uid (contentId item)"
  shows "findOneAndUpdate_push m uid item t = (Inl MongoDuplicateKey, m)"
  using assms
  by (auto simp: findOneAndUpdate_push_def itemExists_def split: option.splits)

text \<open>A call that runs alone goes through its steps to the result of the sequential function.\<close>

lemma add_step_alone:
  "run_schedule [0, 0, 0, 0, 0, 0, 0] ([start_call e uid request], w)
     = ([(start_call e uid request)\<lparr>call_pc := Returned (fst (addToMyList e w uid request))\<rparr>],
        fst (snd (addToMyList e w uid request)))"
proof (cases "uid \<in> users w \<and> contentExists (movies w) (tvshows w) (contentId request) (contentType request)
        \<and> \<not> itemExists (mylists w) uid (contentId request)")
  case True
  let ?item = "\<lparr>contentId = contentId request, contentType = contentType request, addedAt = now e\<rparr>"
  from True have n: "\<not> itemExists (mylists w) uid (contentId ?item)" by simp
  from findOneAndUpdate_push_fresh [OF n, of "now e"]
  obtain d where f: "findOneAndUpdate_push (mylists w) uid ?item (now e) = (Inr d, (mylists w)(uid \<mapsto> d))"
    and h: "hasItem d (contentId request)"
    and a: "addItem (mylists w) uid ?item (now e) = (Inr (), (mylists w)(uid \<mapsto> d))"
    by auto
  from True a f h show ?thesis
    by (simp add: schedule_step_def add_step_def start_call_def addToMyList_def Let_def)
next
  case False
  then show ?thesis
    by (auto simp: schedule_step_def add_step_def start_call_def addToMyList_def Let_def)
qed

lemmas step_defs = schedule_step_def add_step_def start_call_def findOneAndUpdate_push_def
  itemExists_def hasItem_def contentExists_def invalidateUserList_def InMemoryCacheService_deletePattern_def Let_def

lemma phases_disjoint:
  "early pc \<Longrightarrow> \<not> won pc" "early pc \<Longrightarrow> \<not> lost cid pc" "won pc \<Longrightarrow> \<not> lost cid pc"
  by (auto simp: early_def won_def lost_def)

lemma add_step_frame:
  assumes "add_step c w = (c', w')"
  shows "call_user c' = call_user c" "call_request c' = call_request c" "call_env c' = call_env c"
    "users w' = users w" "movies w' = movies w" "tvshows w' = tvshows w"
  using assms
  by (cases "call_pc c";
      auto simp: add_step_def Let_def invalidateUserList_def split: if_splits prod.splits sum.splits option.splits)+

lemma add_step_early:
  assumes s: "add_step c w = (c', w')" and e: "early (call_pc c)"
    and u: "call_user c \<in> users w"
    and x: "contentExists (movies w) (tvshows w) (contentId (call_request c)) (contentType (call_request c))"
  shows "(early (call_pc c') \<and> mylists w' = mylists w)
       \<or> (lost (contentId (call_request c)) (call_pc c') \<and> mylists w' = mylists w
            \<and> itemExists (mylists w) (call_user c) (contentId (call_request c)))
       \<or> (won (call_pc c') \<and> \<not> itemExists (mylists w) (call_user c) (contentId (call_request c))
            \<and> itemExists (mylists w') (call_user c) (contentId (call_request c)))"
proof -
  let ?item = "\<lparr>contentId = contentId (call_request c), contentType = contentType (call_request c),
                 addedAt = now (call_env c)\<rparr>"
  let ?ex = "itemExists (mylists w) (call_user c) (contentId (call_request c))"
  from e consider "call_pc c = AwaitUserExists" | "call_pc c = AwaitContentExists" | "call_pc c = AwaitItemExists"
    | "call_pc c = AwaitRepoItemExists" | "call_pc c = AwaitFindOneAndUpdate"
    unfolding early_def by blast
  then show ?thesis
  proof cases
    case 1
    with s u show ?thesis by (auto simp: add_step_def Let_def early_def)
  next
    case 2
    with s x show ?thesis by (auto simp: add_step_def Let_def early_def)
  next
    case 3
    with s show ?thesis by (auto simp: add_step_def Let_def early_def lost_def split: if_splits)
  next
    case 4
    with s show ?thesis by (auto simp: add_step_def Let_def early_def lost_def split: if_splits)
  next
    case 5
    show ?thesis
    proof (cases ?ex)
      case True
      then have "findOneAndUpdate_push (mylists w) (call_user c) ?item (now (call_env c)) = (Inl MongoDuplicateKey, mylists w)"
        by (intro findOneAndUpdate_push_present) simp
      with s 5 True show ?thesis by (auto simp: add_step_def Let_def lost_def)
    next
      case False
      then have "\<not> itemExists (mylists w) (call_user c) (contentId ?item)" by simp
      from findOneAndUpdate_push_fresh [OF this, of "now (call_env c)"]
      obtain d where "findOneAndUpdate_push (mylists w) (call_user c) ?item (now (call_env c))
            = (Inr d, (mylists w)(call_user c \<mapsto> d))" "hasItem d (contentId (call_request c))"
        by auto
      with s 5 False show ?thesis by (auto simp: add_step_def Let_def won_def itemExists_def)
    qed
  qed
qed

lemma add_step_won:
  assumes "add_step c w = (c', w')" "won (call_pc c)"
  shows "won (call_pc c') \<and> mylists w' = mylists w"
  using assms by (auto simp: won_def add_step_def Let_def)

lemma add_step_lost:
  assumes "add_step c w = (c', w')" "lost cid (call_pc c)" "cid = contentId (call_request c)"
    "itemExists (mylists w) (call_user c) cid"
  shows "lost cid (call_pc c') \<and> mylists w' = mylists w"
  using assms by (auto simp: lost_def add_step_def Let_def)

lemma length_filter_update:
  "i < length xs \<Longrightarrow>
   length (filter P (xs[i := y])) + (if P (xs ! i) then 1 else 0)
     = length (filter P xs) + (if P y then 1 else 0)"
proof (induction xs arbitrary: i)
  case Nil
  then show ?case by simp
next
  case (Cons x xs)
  show ?case
  proof (cases i)
    case 0
    then show ?thesis by simp
  next
    case (Suc j)
    with Cons.prems have "j < length xs" by simp
    from Cons.IH [OF this] Suc show ?thesis by simp
  qed
qed

lemma add_inv_step:
  assumes inv: "add_inv uid cid s"
  shows "add_inv uid cid (schedule_step i s)"
proof -
  obtain cs w where s: "s = (cs, w)" by (cases s)
  show ?thesis
  proof (cases "i < length cs")
    case False
    with inv s show ?thesis by (simp add: schedule_step_def)
  next
    case True
    define c where "c = cs ! i"
    obtain c' w' where st: "add_step c w = (c', w')" by (cases "add_step c w")
    have new: "schedule_step i s = (cs[i := c'], w')"
      using s True st by (simp add: schedule_step_def c_def)
    have cin: "c \<in> set cs" using True by (simp add: c_def)
    from inv s have u: "uid \<in> users w"
      and all: "\<And>c. c \<in> set cs \<Longrightarrow> call_user c = uid \<and> contentId (call_request c) = cid
               \<and> contentExists (movies w) (tvshows w) cid (contentType (call_request c))
               \<and> (early (call_pc c) \<or> won (call_pc c)
                    \<or> (lost cid (call_pc c) \<and> itemExists (mylists w) uid cid))"
      and cnt: "length (filter (\<lambda>c. won (call_pc c)) cs) = (if itemExists (mylists w) uid cid then 1 else 0)"
      by (auto simp: add_inv_def)
    note fr = add_step_frame [OF st]
    from all [OF cin] have cu: "call_user c = uid" and cc: "contentId (call_request c) = cid"
      and cx: "contentExists (movies w) (tvshows w) cid (contentType (call_request c))"
      and ph: "early (call_pc c) \<or> won (call_pc c) \<or> (lost cid (call_pc c) \<and> itemExists (mylists w) uid cid)"
      by simp_all
    text \<open>What the step does, by the phase of the call.\<close>
    have eff: "(mylists w' = mylists w \<and> won (call_pc c') = won (call_pc c)
                 \<and> (early (call_pc c') \<or> won (call_pc c')
                      \<or> (lost cid (call_pc c') \<and> itemExists (mylists w) uid cid)))
             \<or> (\<not> won (call_pc c) \<and> won (call_pc c') \<and> \<not> itemExists (mylists w) uid cid
                 \<and> itemExists (mylists w') uid cid)"
      using ph
    proof (elim disjE conjE)
      assume e: "early (call_pc c)"
      from add_step_early [OF st e] u cu cc cx phases_disjoint e
      show ?thesis by auto
    next
      assume "won (call_pc c)"
      from add_step_won [OF st this] this show ?thesis by simp
    next
      assume l: "lost cid (call_pc c)" and x: "itemExists (mylists w) uid cid"
      from add_step_lost [OF st l cc [symmetric]] x cu l phases_disjoint
      show ?thesis by auto
    qed
    have mono: "itemExists (mylists w) uid cid \<Longrightarrow> itemExists (mylists w') uid cid"
      using eff by auto
    have all': "call_user d = uid \<and> contentId (call_request d) = cid
               \<and> contentExists (movies w') (tvshows w') cid (contentType (call_request d))
               \<and> (early (call_pc d) \<or> won (call_pc d)
                    \<or> (lost cid (call_pc d) \<and> itemExists (mylists w') uid cid))"
      if "d \<in> set (cs[i := c'])" for d
    proof (cases "d = c'")
      case True
      from eff mono have "early (call_pc c') \<or> won (call_pc c')
                    \<or> (lost cid (call_pc c') \<and> itemExists (mylists w') uid cid)"
        by auto
      with True fr cu cc cx show ?thesis by simp
    next
      case False
      with that set_update_subset_insert [of cs i c'] have "d \<in> set cs" by auto
      from all [OF this] mono fr show ?thesis by auto
    qed
    have "length (filter (\<lambda>c. won (call_pc c)) (cs[i := c'])) + (if won (call_pc c) then 1 else 0)
        = length (filter (\<lambda>c. won (call_pc c)) cs) + (if won (call_pc c') then 1 else 0)"
      using length_filter_update [OF True, of "\<lambda>c. won (call_pc c)" c'] by (simp add: c_def)
    with cnt eff have cnt': "length (filter (\<lambda>c. won (call_pc c)) (cs[i := c']))
        = (if itemExists (mylists w') uid cid then 1 else 0)"
      by (auto split: if_splits)
    from u fr all' cnt' show ?thesis
      unfolding new add_inv_def by simp
  qed
qed

lemma add_inv_run: "add_inv uid cid s \<Longrightarrow> add_inv uid cid (run_schedule sched s)"
  by (induction sched arbitrary: s) (simp_all add: add_inv_step)

lemma length_schedule_step: "length (fst (schedule_step i s)) = length (fst s)"
  by (cases s) (auto simp: schedule_step_def split: prod.splits)

lemma length_run_schedule: "length (fst (run_schedule sched s)) = length (fst s)"
  by (induction sched arbitrary: s) (simp_all add: length_schedule_step)

text \<open>
  Any number of calls for the same user and content id, any schedule: once all have
  returned, exactly one has succeeded, the item is stored, and every other call has
  failed with \<^verbatim>\<open>DuplicateItemError\<close> or with the plain duplicate error of the
  repository.
\<close>

lemma concurrent_add_exactly_one:
  assumes u: "uid \<in> users w" and fresh: "\<not> itemExists (mylists w) uid cid"
    and calls: "\<forall>c \<in> set cs. call_user c = uid \<and> contentId (call_request c) = cid
                  \<and> contentExists (movies w) (tvshows w) cid (contentType (call_request c))
                  \<and> call_pc c = AwaitUserExists"
    and ne: "cs \<noteq> []"
    and run: "run_schedule sched (cs, w) = (cs', w')"
    and returned: "\<forall>c \<in> set cs'. \<exists>r. call_pc c = Returned r"
  shows "length (filter (\<lambda>c. call_pc c = Returned (Inr ())) cs') = 1
    \<and> (\<forall>c \<in> set cs'. call_pc c = Returned (Inr ())
           \<or> call_pc c = Returned (Inl (DuplicateItemError cid))
           \<or> call_pc c = Returned (Inl (Error ''Item already exists in list'')))
    \<and> itemExists (mylists w') uid cid"
proof -
  have "filter (\<lambda>c. won (call_pc c)) cs = []"
    using calls by (auto simp: filter_empty_conv won_def)
  with u fresh calls have "add_inv uid cid (cs, w)"
    by (auto simp: add_inv_def early_def)
  from add_inv_run [OF this, of sched] run have inv: "add_inv uid cid (cs', w')" by simp
  then have all: "\<And>c. c \<in> set cs' \<Longrightarrow> early (call_pc c) \<or> won (call_pc c)
                    \<or> (lost cid (call_pc c) \<and> itemExists (mylists w') uid cid)"
    and cnt: "length (filter (\<lambda>c. won (call_pc c)) cs') = (if itemExists (mylists w') uid cid then 1 else 0)"
    by (auto simp: add_inv_def)
  have ret: "call_pc c = Returned (Inr ()) \<or> ((call_pc c = Returned (Inl (DuplicateItemError cid))
           \<or> call_pc c = Returned (Inl (Error ''Item already exists in list'')))
              \<and> itemExists (mylists w') uid cid)" if "c \<in> set cs'" for c
    using all [OF that] returned that by (auto simp: early_def won_def lost_def)
  have weq: "won (call_pc c) \<longleftrightarrow> call_pc c = Returned (Inr ())" if "c \<in> set cs'" for c
    using returned that by (auto simp: won_def)
  have feq: "filter (\<lambda>c. won (call_pc c)) cs' = filter (\<lambda>c. call_pc c = Returned (Inr ())) cs'"
    by (rule filter_cong [OF refl]) (rule weq)
  from length_run_schedule [of sched "(cs, w)"] run ne have "cs' \<noteq> []" by auto
  then obtain c0 where c0: "c0 \<in> set cs'" by (cases cs') auto
  have ex: "itemExists (mylists w') uid cid"
  proof (rule ccontr)
    assume n: "\<not> itemExists (mylists w') uid cid"
    with cnt have "filter (\<lambda>c. won (call_pc c)) cs' = []" by simp
    with c0 have "\<not> won (call_pc c0)" by (simp add: filter_empty_conv)
    with ret [OF c0] n weq [OF c0] show False by simp
  qed
  with cnt feq ret show ?thesis by auto
qed

text \<open>Every call has returned after seven of its own steps.\<close>

lemma add_step_returned: "call_pc c = Returned r \<Longrightarrow> add_step c w = (c, w)"
  by (simp add: add_step_def Let_def)

section \<open>Claims\<close>

text \<open>
  C1. \<^verbatim>\<open>addToMyList\<close> checks its preconditions in a fixed order. An unknown user
  gives \<^verbatim>\<open>UserNotFoundError\<close> after the user lookup alone, with the state untouched;
  otherwise unknown content gives \<^verbatim>\<open>ContentNotFoundError\<close>; otherwise a content id
  already in the user's list gives \<^verbatim>\<open>DuplicateItemError\<close>; otherwise the call
  succeeds and the item is in the list afterwards.
\<close>

theorem addToMyList_precondition_order:
  "(uid \<notin> users w \<longrightarrow>
      addToMyList e w uid request = (Inl (UserNotFoundError uid), w, [UserExists uid]))
   \<and> (uid \<in> users w \<and> \<not> contentExists (movies w) (tvshows w) (contentId request) (contentType request) \<longrightarrow>
      addToMyList e w uid request =
        (Inl (ContentNotFoundError (contentId request) (contentType request)), w,
         [UserExists uid, ContentExists (contentId request) (contentType request)]))
   \<and> (uid \<in> users w \<and> contentExists (movies w) (tvshows w) (contentId request) (contentType request)
        \<and> itemExists (mylists w) uid (contentId request) \<longrightarrow>
      addToMyList e w uid request =
        (Inl (DuplicateItemError (contentId request)), w,
         [UserExists uid, ContentExists (contentId request) (contentType request),
          ItemExists uid (contentId request)]))
   \<and> (uid \<in> users w \<and> contentExists (movies w) (tvshows w) (contentId request) (contentType request)
        \<and> \<not> itemExists (mylists w) uid (contentId request) \<longrightarrow>
      fst (addToMyList e w uid request) = Inr ()
      \<and> itemExists (mylists (fst (snd (addToMyList e w uid request)))) uid (contentId request))"
proof -
  have "fst (addToMyList e w uid request) = Inr ()
        \<and> itemExists (mylists (fst (snd (addToMyList e w uid request)))) uid (contentId request)"
    if "uid \<in> users w" "contentExists (movies w) (tvshows w) (contentId request) (contentType request)"
       "\<not> itemExists (mylists w) uid (contentId request)"
  proof -
    let ?item = "\<lparr>contentId = contentId request, contentType = contentType request, addedAt = now e\<rparr>"
    from addItem_fresh[of "mylists w" uid ?item "now e"] that(3)
    obtain d where "addItem (mylists w) uid ?item (now e) = (Inr (), (mylists w)(uid \<mapsto> d))"
      and "hasItem d (contentId request)"
      by auto
    with that show ?thesis
      by (simp add: addToMyList_def invalidateUserList_def itemExists_def split: option.splits)
  qed
  then show ?thesis by (simp add: addToMyList_def)
qed

theorem addToMyList_precondition_order_witness:
  "''u9'' \<notin> users world0
   \<and> fst (addToMyList env0 world0 ''u9'' \<lparr>contentId = ''movie-2'', contentType = Movie\<rparr>)
       = Inl (UserNotFoundError ''u9'')
   \<and> ''u1'' \<in> users world0
   \<and> \<not> contentExists (movies world0) (tvshows world0) ''movie-9'' Movie
   \<and> fst (addToMyList env0 world0 ''u1'' \<lparr>contentId = ''movie-9'', contentType = Movie\<rparr>)
       = Inl (ContentNotFoundError ''movie-9'' Movie)
   \<and> contentExists (movies world0) (tvshows world0) ''movie-1'' Movie
   \<and> itemExists (mylists world0) ''u1'' ''movie-1''
   \<and> fst (addToMyList env0 world0 ''u1'' \<lparr>contentId = ''movie-1'', contentType = Movie\<rparr>)
       = Inl (DuplicateItemError ''movie-1'')
   \<and> contentExists (movies world0) (tvshows world0) ''movie-2'' Movie
   \<and> \<not> itemExists (mylists world0) ''u1'' ''movie-2''
   \<and> fst (addToMyList env0 world0 ''u1'' \<lparr>contentId = ''movie-2'', contentType = Movie\<rparr>) = Inr ()"
proof -
  have u9: "''u9'' \<notin> users world0" and u1: "''u1'' \<in> users world0"
    by (simp_all add: world0_def)
  have c9: "\<not> contentExists (movies world0) (tvshows world0) ''movie-9'' Movie"
    and c1: "contentExists (movies world0) (tvshows world0) ''movie-1'' Movie"
    and c2: "contentExists (movies world0) (tvshows world0) ''movie-2'' Movie"
    by (simp_all add: world0_def contentExists_def movie1_def movie2_def)
  have i1: "itemExists (mylists world0) ''u1'' ''movie-1''"
    and i2: "\<not> itemExists (mylists world0) ''u1'' ''movie-2''"
    by (simp_all add: world0_def itemExists_def hasItem_def list_u1_def)
  show ?thesis
    using u9 u1 c9 c1 c2 i1 i2
      addToMyList_precondition_order [of "''u9''" world0 env0 "\<lparr>contentId = ''movie-2'', contentType = Movie\<rparr>"]
      addToMyList_precondition_order [of "''u1''" world0 env0 "\<lparr>contentId = ''movie-9'', contentType = Movie\<rparr>"]
      addToMyList_precondition_order [of "''u1''" world0 env0 "\<lparr>contentId = ''movie-1'', contentType = Movie\<rparr>"]
      addToMyList_precondition_order [of "''u1''" world0 env0 "\<lparr>contentId = ''movie-2'', contentType = Movie\<rparr>"]
    by simp
qed

text \<open>
  C4. \<^verbatim>\<open>removeFromMyList\<close> run on the example state: removing \<^verbatim>\<open>movie-2\<close>, which is
  not in the list of \<^verbatim>\<open>u1\<close>, succeeds, and removing \<^verbatim>\<open>movie-1\<close> twice in a row
  succeeds both times, where \<^verbatim>\<open>ItemNotFoundError\<close> is the documented answer.
\<close>

theorem removeFromMyList_absent_item_succeeds:
  "fst (removeFromMyList env0 world0 ''u1'' ''movie-2'') = Inr ()
   \<and> \<not> itemExists (mylists world0) ''u1'' ''movie-2''
   \<and> fst (removeFromMyList env0 world0 ''u1'' ''movie-1'') = Inr ()
   \<and> fst (removeFromMyList env0 (fst (snd (removeFromMyList env0 world0 ''u1'' ''movie-1''))) ''u1'' ''movie-1'') = Inr ()"
  by (simp add: removeFromMyList_def removeItem_def findOneAndUpdate_pull_def world0_def
      list_u1_def hasItem_def itemExists_def invalidateUserList_def env0_def
      InMemoryCacheService_deletePattern_def Let_def)




text \<open>
  C3, as stated, fails. With the filter \<^verbatim>\<open>Movie\<close> on the state without \<^verbatim>\<open>movie-1\<close>
  in the catalogue, the fetched page holds one \<^verbatim>\<open>Movie\<close> entry and the total is 0;
  on page 2 of the two-item list the fetched page is empty and the total is the
  unfiltered 2.
\<close>

theorem getMyList_filtered_total_counterexample:
  "fst (getCachedList env0 world1 ''u1'' 1 10 (Some Movie)) = None
   \<and> result_items (getItemsPaginated (mylists world1) ''u1'' 1 10) =
       [\<lparr>contentId = ''tvshow-1'', contentType = TVShow, addedAt = 20\<rparr>,
        \<lparr>contentId = ''movie-1'', contentType = Movie, addedAt = 10\<rparr>]
   \<and> total (pagination (fst (getMyList env0 world1 ''u1''
        \<lparr>query_page = Some 1, query_limit = Some 10, query_contentType = Some Movie\<rparr>))) = 0
   \<and> fst (getCachedList env0 world0 ''u1'' 2 10 (Some Movie)) = None
   \<and> result_items (getItemsPaginated (mylists world0) ''u1'' 2 10) = []
   \<and> total (pagination (fst (getMyList env0 world0 ''u1''
        \<lparr>query_page = Some 2, query_limit = Some 10, query_contentType = Some Movie\<rparr>))) = 2"
proof -
  have m1: "fst (getCachedList env0 world1 ''u1'' 1 10 (Some Movie)) = None"
    and m0: "fst (getCachedList env0 world0 ''u1'' 2 10 (Some Movie)) = None"
    by (simp_all add: getCachedList_def InMemoryCacheService_get_def example_defs)
  have p0: "result_items (getItemsPaginated (mylists world0) ''u1'' 2 10) = []"
    and t0: "total (result_pagination (getItemsPaginated (mylists world0) ''u1'' 2 10)) = 2"
    by (simp_all add: getItemsPaginated_def slice_def Let_def example_defs)
  have q1: "query_page_or_default \<lparr>query_page = Some 1, query_limit = Some 10, query_contentType = Some Movie\<rparr> = 1"
    "query_limit_or_default \<lparr>query_page = Some 1, query_limit = Some 10, query_contentType = Some Movie\<rparr> = 10"
    and q2: "query_page_or_default \<lparr>query_page = Some 2, query_limit = Some 10, query_contentType = Some Movie\<rparr> = 2"
    "query_limit_or_default \<lparr>query_page = Some 2, query_limit = Some 10, query_contentType = Some Movie\<rparr> = 10"
    by (simp_all add: query_page_or_default_def query_limit_or_default_def)
  have a: "fst (getMyList env0 world1 ''u1''
        \<lparr>query_page = Some 1, query_limit = Some 10, query_contentType = Some Movie\<rparr>)
        = assemblePage world1 ''u1'' 1 10 (Some Movie)"
    using getMyList_miss [of env0 world1 "''u1''" "\<lparr>query_page = Some 1, query_limit = Some 10, query_contentType = Some Movie\<rparr>"] m1
    by (simp add: q1)
  have b: "fst (getMyList env0 world0 ''u1''
        \<lparr>query_page = Some 2, query_limit = Some 10, query_contentType = Some Movie\<rparr>)
        = assemblePage world0 ''u1'' 2 10 (Some Movie)"
    using getMyList_miss [of env0 world0 "''u1''" "\<lparr>query_page = Some 2, query_limit = Some 10, query_contentType = Some Movie\<rparr>"] m0
    by (simp add: q2)
  have c: "\<not> contentExists (movies world1) (tvshows world1) ''movie-1'' Movie"
    by (simp add: contentExists_def example_defs)
  have "length (data (assemblePage world1 ''u1'' 1 10 (Some Movie))) = 0"
    unfolding length_data_filtered page1 using c by simp
  then have ta: "total (pagination (assemblePage world1 ''u1'' 1 10 (Some Movie))) = 0"
    using pagination_assemblePage_filtered [of world1 "''u1''" 1 10 Movie] by (simp add: page1)
  have tb: "total (pagination (assemblePage world0 ''u1'' 2 10 (Some Movie))) = 2"
    using p0 t0 by (simp add: assemblePage_def Let_def)
  show ?thesis
    unfolding a b using m1 m0 page1 p0 ta tb by simp
qed

text \<open>
  C3, amended. On a cache miss with a content-type filter: when the fetched page is
  empty the answer is the empty page with the store's unfiltered metadata; otherwise
  the total is the number of returned entries, which is the number of entries of the
  fetched page that have the requested type and whose content the catalogue holds,
  \<open>totalPages = \<lceil>total / limit\<rceil>\<close>, \<open>hasNextPage = (page < totalPages)\<close> and
  \<open>hasPreviousPage = (page > 1)\<close>: all over the one fetched page.
\<close>

theorem getMyList_filtered_pagination:
  fixes q :: ListMyItemsQuery and w :: world and uid :: string and e :: env
  defines "pg \<equiv> query_page_or_default q" and "lmt \<equiv> query_limit_or_default q"
  defines "fetched \<equiv> getItemsPaginated (mylists w) uid pg lmt"
  defines "r \<equiv> fst (getMyList e w uid q)"
  assumes miss: "fst (getCachedList e w uid pg lmt (query_contentType q)) = None"
    and ct: "query_contentType q = Some t"
  shows "(result_items fetched = [] \<longrightarrow> r = \<lparr>data = [], pagination = result_pagination fetched\<rparr>)
    \<and> (result_items fetched \<noteq> [] \<longrightarrow>
         length (data r)
           = length (filter (\<lambda>i. contentType i = t \<and> contentExists (movies w) (tvshows w) (contentId i) t)
                       (result_items fetched))
         \<and> total (pagination r) = int (length (data r))
         \<and> totalPages (pagination r) = \<lceil>real_of_int (total (pagination r)) / real_of_int lmt\<rceil>
         \<and> hasNextPage (pagination r) = (pg < totalPages (pagination r))
         \<and> hasPreviousPage (pagination r) = (pg > 1)
         \<and> page (pagination r) = pg \<and> limit (pagination r) = lmt)"
proof -
  have r: "r = assemblePage w uid pg lmt (Some t)"
    unfolding r_def pg_def lmt_def using getMyList_miss [of e w uid q] miss ct
    by (simp add: pg_def lmt_def)
  show ?thesis
  proof (intro conjI impI)
    assume "result_items fetched = []"
    then show "r = \<lparr>data = [], pagination = result_pagination fetched\<rparr>"
      unfolding r fetched_def by (simp add: assemblePage_def Let_def)
  next
    assume ne: "result_items fetched \<noteq> []"
    note p = pagination_assemblePage_filtered [OF ne [unfolded fetched_def], of t]
    show "length (data r)
           = length (filter (\<lambda>i. contentType i = t \<and> contentExists (movies w) (tvshows w) (contentId i) t)
                       (result_items fetched))"
      unfolding r fetched_def by (rule length_data_filtered)
    show "total (pagination r) = int (length (data r))" unfolding r p by simp
    show "totalPages (pagination r) = \<lceil>real_of_int (total (pagination r)) / real_of_int lmt\<rceil>"
      unfolding r p by (simp add: ceil_div_ceiling)
    show "hasNextPage (pagination r) = (pg < totalPages (pagination r))" unfolding r p by simp
    show "hasPreviousPage (pagination r) = (pg > 1)" unfolding r p by simp
    show "page (pagination r) = pg" unfolding r p by simp
    show "limit (pagination r) = lmt" unfolding r p by simp
  qed
qed

theorem getMyList_filtered_pagination_witness:
  "fst (getCachedList env0 world0 ''u1''
      (query_page_or_default \<lparr>query_page = None, query_limit = Some 1, query_contentType = Some Movie\<rparr>)
      (query_limit_or_default \<lparr>query_page = None, query_limit = Some 1, query_contentType = Some Movie\<rparr>)
      (query_contentType \<lparr>query_page = None, query_limit = Some 1, query_contentType = Some Movie\<rparr>)) = None
   \<and> query_contentType \<lparr>query_page = None, query_limit = Some 1, query_contentType = Some Movie\<rparr> = Some Movie
   \<and> result_items (getItemsPaginated (mylists world0) ''u1'' 1 1) \<noteq> []
   \<and> total (pagination (fst (getMyList env0 world0 ''u1''
         \<lparr>query_page = None, query_limit = Some 1, query_contentType = Some Movie\<rparr>))) = 0
   \<and> totalPages (pagination (fst (getMyList env0 world0 ''u1''
         \<lparr>query_page = None, query_limit = Some 1, query_contentType = Some Movie\<rparr>))) = 0
   \<and> total (result_pagination (getItemsPaginated (mylists world0) ''u1'' 1 1)) = 2"
proof -
  let ?q = "\<lparr>query_page = None, query_limit = Some 1, query_contentType = Some Movie\<rparr>"
  have q: "query_page_or_default ?q = 1" "query_limit_or_default ?q = 1" "query_contentType ?q = Some Movie"
    by (simp_all add: query_page_or_default_def query_limit_or_default_def)
  have m: "fst (getCachedList env0 world0 ''u1'' (query_page_or_default ?q) (query_limit_or_default ?q)
      (query_contentType ?q)) = None"
    unfolding q by (simp add: getCachedList_def InMemoryCacheService_get_def example_defs)
  have p: "result_items (getItemsPaginated (mylists world0) ''u1'' 1 1)
            = [\<lparr>contentId = ''tvshow-1'', contentType = TVShow, addedAt = 20\<rparr>]"
    and t: "total (result_pagination (getItemsPaginated (mylists world0) ''u1'' 1 1)) = 2"
    by (simp_all add: getItemsPaginated_def slice_def Let_def example_defs)
  show ?thesis
    using getMyList_filtered_pagination [OF m q(3), of] m p t
    by (simp add: q)
qed

text \<open>
  C9. On a cache miss, for a stored list with distinct content ids, the returned data
  are, in order, the entries of the fetched (and filtered) page whose content the
  catalogue holds. Each of them carries the \<^verbatim>\<open>contentId\<close>, \<^verbatim>\<open>contentType\<close> and \<^verbatim>\<open>addedAt\<close>
  of its list item and the details of a catalogue document of that id and type: title,
  description and genres, then release date, director and actors for a movie, the
  number of episodes for a show. The entries whose content is missing are left out
  and the call returns normally.
\<close>

theorem getMyList_unresolved_dropped:
  assumes miss: "fst (getCachedList e w uid (query_page_or_default q) (query_limit_or_default q)
                   (query_contentType q)) = None"
    and uniq: "\<forall>d. mylists w uid = Some d \<longrightarrow> distinct (map contentId (items d))"
  shows "list_all2
           (\<lambda>item x.
              (\<exists>d \<in> set (movies w). contentType item = Movie \<and> mv_id d = contentId item
                 \<and> x = \<lparr>contentId = contentId item, contentType = Movie, addedAt = addedAt item,
                        title = mv_title d, description = mv_description d, genres = mv_genres d,
                        releaseDate = Some (mv_releaseDate d), director = Some (mv_director d),
                        actors = Some (mv_actors d), episodeCount = None\<rparr>)
              \<or> (\<exists>d \<in> set (tvshows w). contentType item = TVShow \<and> tv_id d = contentId item
                 \<and> x = \<lparr>contentId = contentId item, contentType = TVShow, addedAt = addedAt item,
                        title = tv_title d, description = tv_description d, genres = tv_genres d,
                        releaseDate = None, director = None, actors = None,
                        episodeCount = Some (length (tv_episodes d))\<rparr>))
           (filter (\<lambda>i. contentExists (movies w) (tvshows w) (contentId i) (contentType i))
              (itemsToProcess
                 (result_items (getItemsPaginated (mylists w) uid (query_page_or_default q)
                    (query_limit_or_default q)))
                 (query_contentType q)))
           (data (fst (getMyList e w uid q)))"
proof -
  have "list_all2 (page_entry w)
           (filter (\<lambda>i. contentExists (movies w) (tvshows w) (contentId i) (contentType i))
              (itemsToProcess
                 (result_items (getItemsPaginated (mylists w) uid (query_page_or_default q)
                    (query_limit_or_default q)))
                 (query_contentType q)))
           (data (fst (getMyList e w uid q)))"
    unfolding getMyList_miss [OF miss]
    by (rule data_assemblePage_resolved) (rule page_same_type [OF uniq])
  then show ?thesis
    by (rule list_all2_mono) (rule page_entry_fields)
qed

theorem getMyList_unresolved_dropped_witness:
  "fst (getCachedList env0 world1 ''u1'' (query_page_or_default query0) (query_limit_or_default query0)
      (query_contentType query0)) = None
   \<and> mylists world1 ''u1'' = Some list_u1
   \<and> distinct (map contentId (items list_u1))
   \<and> \<not> contentExists (movies world1) (tvshows world1) ''movie-1'' Movie
   \<and> map contentId (result_items (getItemsPaginated (mylists world1) ''u1'' 1 10)) = [''tvshow-1'', ''movie-1'']
   \<and> data (fst (getMyList env0 world1 ''u1'' query0))
       = [\<lparr>contentId = ''tvshow-1'', contentType = TVShow, addedAt = 20,
           title = ''Show 1'', description = ''A show'', genres = [Drama],
           releaseDate = None, director = None, actors = None, episodeCount = Some 1\<rparr>]"
proof -
  have q: "query_page_or_default query0 = 1" "query_limit_or_default query0 = 10" "query_contentType query0 = None"
    by (simp_all add: query0_def query_page_or_default_def query_limit_or_default_def)
  have m: "fst (getCachedList env0 world1 ''u1'' (query_page_or_default query0) (query_limit_or_default query0)
      (query_contentType query0)) = None"
    unfolding q by (rule miss0)
  have u: "\<forall>d. mylists world1 ''u1'' = Some d \<longrightarrow> distinct (map contentId (items d))"
    by (simp add: example_defs)
  have c: "\<not> contentExists (movies world1) (tvshows world1) ''movie-1'' Movie"
    "contentExists (movies world1) (tvshows world1) ''tvshow-1'' TVShow"
    by (simp_all add: contentExists_def example_defs)
  have t: "tvshows world1 = [tvshow1]" "movies world1 = [movie2]" by (simp_all add: example_defs)
  from getMyList_unresolved_dropped [OF m u]
  have n: "data (fst (getMyList env0 world1 ''u1'' query0))
       = [\<lparr>contentId = ''tvshow-1'', contentType = TVShow, addedAt = 20,
           title = ''Show 1'', description = ''A show'', genres = [Drama],
           releaseDate = None, director = None, actors = None, episodeCount = Some 1\<rparr>]"
    unfolding q page1 using c
    by (simp add: itemsToProcess_def t list_all2_Cons1 tvshow1_def)
  have l: "mylists world1 ''u1'' = Some list_u1" "distinct (map contentId (items list_u1))"
    by (simp_all add: example_defs)
  with m c n show ?thesis by (simp add: page1)
qed

text \<open>
  C5. \<^verbatim>\<open>removeFromMyList\<close> run on the example state at clock reading 1000, for
  \<^verbatim>\<open>movie-2\<close>, which is not in the list of \<^verbatim>\<open>u1\<close>: no item is removed, yet the call
  succeeds and the stored aggregate has a new \<^verbatim>\<open>updatedAt\<close>, 1000 in place of 20. The
  update that pulls the item sets \<^verbatim>\<open>updatedAt\<close> whether or not an item matched.
\<close>

theorem removeFromMyList_absent_item_rewrites_updatedAt:
  "\<not> itemExists (mylists world0) ''u1'' ''movie-2''
   \<and> mylists world0 ''u1'' = Some list_u1
   \<and> updatedAt list_u1 = 20
   \<and> fst (removeFromMyList env0 world0 ''u1'' ''movie-2'') = Inr ()
   \<and> mylists (fst (snd (removeFromMyList env0 world0 ''u1'' ''movie-2''))) ''u1''
       = Some (list_u1\<lparr>updatedAt := 1000\<rparr>)"
  by (simp add: removeFromMyList_def removeItem_def findOneAndUpdate_pull_def world0_def
      list_u1_def hasItem_def itemExists_def invalidateUserList_def env0_def Let_def)

text \<open>
  C8. A throwing cache call never reaches the caller and never changes the business
  result. For \<^verbatim>\<open>addToMyList\<close> and \<^verbatim>\<open>removeFromMyList\<close> the outcome and the stored
  lists are the same whether the invalidation throws or not. For \<^verbatim>\<open>getMyList\<close> a
  throwing read gives the page assembled from the store, exactly as a miss (the key
  absent from the cache) does; a throwing write gives the same page as a write that
  succeeds; and the stored lists are untouched in every case.
\<close>

theorem cache_failures_absorbed:
  "fst (addToMyList (e\<lparr>cacheDeleteThrows := True\<rparr>) w uid request)
      = fst (addToMyList (e\<lparr>cacheDeleteThrows := False\<rparr>) w uid request)
   \<and> mylists (fst (snd (addToMyList (e\<lparr>cacheDeleteThrows := True\<rparr>) w uid request)))
      = mylists (fst (snd (addToMyList (e\<lparr>cacheDeleteThrows := False\<rparr>) w uid request)))
   \<and> fst (removeFromMyList (e\<lparr>cacheDeleteThrows := True\<rparr>) w uid cid)
      = fst (removeFromMyList (e\<lparr>cacheDeleteThrows := False\<rparr>) w uid cid)
   \<and> mylists (fst (snd (removeFromMyList (e\<lparr>cacheDeleteThrows := True\<rparr>) w uid cid)))
      = mylists (fst (snd (removeFromMyList (e\<lparr>cacheDeleteThrows := False\<rparr>) w uid cid)))
   \<and> fst (getMyList (e\<lparr>cacheGetThrows := True\<rparr>) w uid q)
      = assemblePage w uid (query_page_or_default q) (query_limit_or_default q) (query_contentType q)
   \<and> fst (getMyList (e\<lparr>cacheGetThrows := True\<rparr>) w uid q)
      = fst (getMyList (e\<lparr>cacheGetThrows := False\<rparr>)
               (w\<lparr>cache := map_option
                    (\<lambda>c. c(getListCacheKey uid (query_page_or_default q) (query_limit_or_default q)
                              (query_contentType q) := None))
                    (cache w)\<rparr>) uid q)
   \<and> fst (getMyList (e\<lparr>cacheSetThrows := True\<rparr>) w uid q)
      = fst (getMyList (e\<lparr>cacheSetThrows := False\<rparr>) w uid q)
   \<and> mylists (snd (getMyList e w uid q)) = mylists w"
proof (intro conjI)
  show "fst (addToMyList (e\<lparr>cacheDeleteThrows := True\<rparr>) w uid request)
      = fst (addToMyList (e\<lparr>cacheDeleteThrows := False\<rparr>) w uid request)"
    by (rule addToMyList_flags) simp
  show "mylists (fst (snd (addToMyList (e\<lparr>cacheDeleteThrows := True\<rparr>) w uid request)))
      = mylists (fst (snd (addToMyList (e\<lparr>cacheDeleteThrows := False\<rparr>) w uid request)))"
    by (rule addToMyList_flags) simp
  show "fst (removeFromMyList (e\<lparr>cacheDeleteThrows := True\<rparr>) w uid cid)
      = fst (removeFromMyList (e\<lparr>cacheDeleteThrows := False\<rparr>) w uid cid)"
    by (rule removeFromMyList_flags) simp
  show "mylists (fst (snd (removeFromMyList (e\<lparr>cacheDeleteThrows := True\<rparr>) w uid cid)))
      = mylists (fst (snd (removeFromMyList (e\<lparr>cacheDeleteThrows := False\<rparr>) w uid cid)))"
    by (rule removeFromMyList_flags) simp
  show a: "fst (getMyList (e\<lparr>cacheGetThrows := True\<rparr>) w uid q)
      = assemblePage w uid (query_page_or_default q) (query_limit_or_default q) (query_contentType q)"
    by (rule getMyList_get_throws) simp
  let ?k = "getListCacheKey uid (query_page_or_default q) (query_limit_or_default q) (query_contentType q)"
  let ?w = "w\<lparr>cache := map_option (\<lambda>c. c(?k := None)) (cache w)\<rparr>"
  have "fst (getCachedList (e\<lparr>cacheGetThrows := False\<rparr>) ?w uid (query_page_or_default q)
           (query_limit_or_default q) (query_contentType q)) = None"
    by (cases "cache w") (simp_all add: getCachedList_def InMemoryCacheService_get_def)
  from getMyList_miss [OF this]
  show "fst (getMyList (e\<lparr>cacheGetThrows := True\<rparr>) w uid q)
      = fst (getMyList (e\<lparr>cacheGetThrows := False\<rparr>) ?w uid q)"
    unfolding a by simp
  show "fst (getMyList (e\<lparr>cacheSetThrows := True\<rparr>) w uid q)
      = fst (getMyList (e\<lparr>cacheSetThrows := False\<rparr>) w uid q)"
    using getMyList_set_flag [where e = e and s = True and d = "cacheDeleteThrows e" and w = w and uid = uid and q = q]
      getMyList_set_flag [where e = e and s = False and d = "cacheDeleteThrows e" and w = w and uid = uid and q = q]
    by simp
  show "mylists (snd (getMyList e w uid q)) = mylists w" by (rule getMyList_mylists)
qed

text \<open>
  C10, as stated, fails. The users \<^verbatim>\<open>a\<close> and \<^verbatim>\<open>a:b\<close> are distinct; after \<^verbatim>\<open>a:b\<close> has
  listed its (empty) list the cache holds the page under \<^verbatim>\<open>mylist:a:b:1:10\<close>; a
  successful add for \<^verbatim>\<open>a\<close> invalidates \<^verbatim>\<open>mylist:a:*\<close>, which that key matches, and the
  page of \<^verbatim>\<open>a:b\<close> is gone.
\<close>

theorem cross_user_eviction_counterexample:
  "''a'' \<noteq> ''a:b''
   \<and> cache_entry (snd (getMyList env0 world_ab ''a:b'' query0)) (getListCacheKey ''a:b'' 1 10 None)
       = Some \<lparr>entry_value = \<lparr>data = [], pagination = \<lparr>page = 1, limit = 10, total = 0, totalPages = 0,
                                 hasNextPage = False, hasPreviousPage = False\<rparr>\<rparr>,
               entry_expiry = Some 301000\<rparr>
   \<and> fst (addToMyList env0 (snd (getMyList env0 world_ab ''a:b'' query0)) ''a''
           \<lparr>contentId = ''movie-1'', contentType = Movie\<rparr>) = Inr ()
   \<and> cache_entry
        (fst (snd (addToMyList env0 (snd (getMyList env0 world_ab ''a:b'' query0)) ''a''
           \<lparr>contentId = ''movie-1'', contentType = Movie\<rparr>)))
        (getListCacheKey ''a:b'' 1 10 None) = None"
proof -
  let ?w = "snd (getMyList env0 world_ab ''a:b'' query0)"
  let ?r = "\<lparr>contentId = ''movie-1'', contentType = Movie\<rparr>"
  have e: "cache_entry ?w (getListCacheKey ''a:b'' 1 10 None)
       = Some \<lparr>entry_value = \<lparr>data = [], pagination = \<lparr>page = 1, limit = 10, total = 0, totalPages = 0,
                                 hasNextPage = False, hasPreviousPage = False\<rparr>\<rparr>,
               entry_expiry = Some 301000\<rparr>"
    by (simp add: world_ab_page key_ab cache_entry_def)
  have s: "fst (addToMyList env0 ?w ''a'' ?r) = Inr ()"
    unfolding world_ab_page snd_conv
    by (simp add: addToMyList_def addItem_def findOneAndUpdate_push_def itemExists_def
        hasItem_def contentExists_def Let_def world_ab_def movie1_def movie2_def)
  from addToMyList_Inr [OF s] obtain d where
    "fst (snd (addToMyList env0 ?w ''a'' ?r)) = invalidateUserList env0 (?w\<lparr>mylists := (mylists ?w)(''a'' \<mapsto> d)\<rparr>) ''a''"
    by blast
  then have "cache_entry (fst (snd (addToMyList env0 ?w ''a'' ?r))) (getListCacheKey ''a:b'' 1 10 None) = None"
    by (simp add: cache_entry_invalidate key_ab pattern_a match_ab env0_def)
  with e s show ?thesis by simp
qed

text \<open>
  C10, amended. An add or remove for \<open>u\<close> leaves the stored aggregate of every other
  user unchanged, and leaves every cache entry unchanged whose key the expression
  engine does not match against the pattern of \<open>u\<close>; for such a key of another user
  \<open>u'\<close> the result of \<^verbatim>\<open>getMyList\<close> is unchanged too. With the in-process cache on
  literal user ids, no key of \<open>u'\<close> matches when neither id contains a colon and
  \<open>u'\<close> does not end in \<^verbatim>\<open>mylist\<close>.
\<close>

theorem mutation_isolation:
  assumes w': "w' = fst (snd (addToMyList e w u request)) \<or> w' = fst (snd (removeFromMyList e w u cid))"
  shows "(u' \<noteq> u \<longrightarrow> mylists w' u' = mylists w u')
    \<and> (\<not> regExpTest e (replaceStars (getUserCachePattern u)) key \<longrightarrow>
          cache_entry w' key = cache_entry w key)
    \<and> (u' \<noteq> u \<and> \<not> regExpTest e (replaceStars (getUserCachePattern u))
              (getListCacheKey u' (query_page_or_default q) (query_limit_or_default q) (query_contentType q)) \<longrightarrow>
          fst (getMyList e' w' u' q) = fst (getMyList e' w u' q))
    \<and> (u' \<noteq> u \<and> regExpTest e = literalRegExpTest \<and> list_all literalChar u
          \<and> CHR '':'' \<notin> set u \<and> CHR '':'' \<notin> set u' \<and> \<not> suffix ''mylist'' u' \<longrightarrow>
          cache_entry w' (getListCacheKey u' pg lmt ct) = cache_entry w (getListCacheKey u' pg lmt ct)
          \<and> fst (getMyList e' w' u' q) = fst (getMyList e' w u' q))"
proof -
  from w' addToMyList_world [of e w u request] removeFromMyList_world [of e w u cid]
  have f: "w' = w \<or> (\<exists>d. w' = invalidateUserList e (w\<lparr>mylists := (mylists w)(u \<mapsto> d)\<rparr>) u)"
    by auto
  note fr = mutation_frame [OF f]
  have get: "fst (getMyList e' w' u' q) = fst (getMyList e' w u' q)"
    if "u' \<noteq> u" "\<not> regExpTest e (replaceStars (getUserCachePattern u))
              (getListCacheKey u' (query_page_or_default q) (query_limit_or_default q) (query_contentType q))"
    by (rule getMyList_cong) (use that fr in simp_all)
  have lit: "\<not> regExpTest e (replaceStars (getUserCachePattern u)) (getListCacheKey u' pg' lmt' ct')"
    if "u' \<noteq> u" "regExpTest e = literalRegExpTest" "list_all literalChar u"
       "CHR '':'' \<notin> set u" "CHR '':'' \<notin> set u'" "\<not> suffix ''mylist'' u'" for pg' lmt' ct'
    using no_foreign_match [of u u' pg' lmt' ct'] that by (simp add: literal_pattern)
  show ?thesis
  proof (intro conjI impI)
    assume "u' \<noteq> u" then show "mylists w' u' = mylists w u'" by (rule fr)
  next
    assume "\<not> regExpTest e (replaceStars (getUserCachePattern u)) key"
    then show "cache_entry w' key = cache_entry w key" by (rule fr)
  next
    assume "u' \<noteq> u \<and> \<not> regExpTest e (replaceStars (getUserCachePattern u))
              (getListCacheKey u' (query_page_or_default q) (query_limit_or_default q) (query_contentType q))"
    then show "fst (getMyList e' w' u' q) = fst (getMyList e' w u' q)" using get by blast
  next
    assume a: "u' \<noteq> u \<and> regExpTest e = literalRegExpTest \<and> list_all literalChar u
          \<and> CHR '':'' \<notin> set u \<and> CHR '':'' \<notin> set u' \<and> \<not> suffix ''mylist'' u'"
    then have n: "\<not> regExpTest e (replaceStars (getUserCachePattern u)) (getListCacheKey u' pg' lmt' ct')"
      for pg' lmt' ct' using lit by blast
    from n show "cache_entry w' (getListCacheKey u' pg lmt ct) = cache_entry w (getListCacheKey u' pg lmt ct)"
      by (rule fr)
    from a n show "fst (getMyList e' w' u' q) = fst (getMyList e' w u' q)" using get by blast
  qed
qed

theorem mutation_isolation_witness:
  "''u2'' \<noteq> ''u1'' \<and> regExpTest env0 = literalRegExpTest \<and> list_all literalChar ''u1''
   \<and> CHR '':'' \<notin> set ''u1'' \<and> CHR '':'' \<notin> set ''u2'' \<and> \<not> suffix ''mylist'' ''u2''
   \<and> fst (addToMyList env0 (snd (getMyList env0 world0 ''u2'' query0)) ''u1''
            \<lparr>contentId = ''movie-2'', contentType = Movie\<rparr>) = Inr ()
   \<and> cache_entry (snd (getMyList env0 world0 ''u2'' query0)) (getListCacheKey ''u2'' 1 10 None)
       = Some \<lparr>entry_value = \<lparr>data = [], pagination = \<lparr>page = 1, limit = 10, total = 0, totalPages = 0,
                                 hasNextPage = False, hasPreviousPage = False\<rparr>\<rparr>,
               entry_expiry = Some 301000\<rparr>
   \<and> cache_entry (fst (snd (addToMyList env0 (snd (getMyList env0 world0 ''u2'' query0)) ''u1''
            \<lparr>contentId = ''movie-2'', contentType = Movie\<rparr>))) (getListCacheKey ''u2'' 1 10 None)
       = Some \<lparr>entry_value = \<lparr>data = [], pagination = \<lparr>page = 1, limit = 10, total = 0, totalPages = 0,
                                 hasNextPage = False, hasPreviousPage = False\<rparr>\<rparr>,
               entry_expiry = Some 301000\<rparr>"
proof -
  let ?w = "snd (getMyList env0 world0 ''u2'' query0)"
  let ?r = "\<lparr>contentId = ''movie-2'', contentType = Movie\<rparr>"
  have h: "''u2'' \<noteq> ''u1''" "regExpTest env0 = literalRegExpTest" "list_all literalChar ''u1''"
    "CHR '':'' \<notin> set ''u1''" "CHR '':'' \<notin> set ''u2''" "\<not> suffix ''mylist'' ''u2''"
    by (simp_all add: env0_def literalChar_def suffix_to_prefix prefix_code)
  have s: "fst (addToMyList env0 ?w ''u1'' ?r) = Inr ()"
    unfolding world0_u2_page snd_conv
    by (simp add: addToMyList_def addItem_def findOneAndUpdate_push_def itemExists_def
        hasItem_def contentExists_def Let_def example_defs)
  have k: "getListCacheKey ''u2'' 1 10 None = ''mylist:u2:1:10''"
    by (simp add: getListCacheKey_def int_to_string_def nat_to_string.simps digit_def)
  have c: "cache_entry ?w (getListCacheKey ''u2'' 1 10 None)
       = Some \<lparr>entry_value = \<lparr>data = [], pagination = \<lparr>page = 1, limit = 10, total = 0, totalPages = 0,
                                 hasNextPage = False, hasPreviousPage = False\<rparr>\<rparr>,
               entry_expiry = Some 301000\<rparr>"
    unfolding world0_u2_page snd_conv k by (simp add: cache_entry_def)
  have w: "fst (snd (addToMyList env0 ?w ''u1'' ?r)) = fst (snd (addToMyList env0 ?w ''u1'' ?r))
        \<or> fst (snd (addToMyList env0 ?w ''u1'' ?r)) = fst (snd (removeFromMyList env0 ?w ''u1'' ''movie-2''))"
    by simp
  from mutation_isolation [OF w, of "''u2''" _ _ _ 1 10 None] h c s
  show ?thesis by simp
qed




text \<open>
  C2. Two calls of \<^verbatim>\<open>addToMyList\<close> for the same user and content id, interleaved so
  that both pass the service's duplicate check before either writes. In the first
  schedule the second call is stopped by the quick check of \<^verbatim>\<open>addItem\<close>, in the second
  by the conditional write and the re-check. Either way exactly one entry is stored
  and one call succeeds, and the other call fails with the plain
  \<^verbatim>\<open>Error('Item already exists in list')\<close>, not with \<^verbatim>\<open>DuplicateItemError\<close>.
\<close>

theorem concurrent_add_loser_gets_plain_error:
  "map call_pc (fst (run_schedule [0, 0, 0, 1, 1, 1, 0, 0, 0, 1]
      ([start_call env0 ''u1'' \<lparr>contentId = ''movie-2'', contentType = Movie\<rparr>,
        start_call env0 ''u1'' \<lparr>contentId = ''movie-2'', contentType = Movie\<rparr>], world0)))
     = [Returned (Inr ()), Returned (Inl (Error ''Item already exists in list''))]
   \<and> map call_pc (fst (run_schedule [0, 0, 0, 0, 1, 1, 1, 1, 0, 0, 1, 1]
      ([start_call env0 ''u1'' \<lparr>contentId = ''movie-2'', contentType = Movie\<rparr>,
        start_call env0 ''u1'' \<lparr>contentId = ''movie-2'', contentType = Movie\<rparr>], world0)))
     = [Returned (Inr ()), Returned (Inl (Error ''Item already exists in list''))]
   \<and> map_option (map contentId \<circ> items)
        (mylists (snd (run_schedule [0, 0, 0, 0, 1, 1, 1, 1, 0, 0, 1, 1]
          ([start_call env0 ''u1'' \<lparr>contentId = ''movie-2'', contentType = Movie\<rparr>,
            start_call env0 ''u1'' \<lparr>contentId = ''movie-2'', contentType = Movie\<rparr>], world0))) ''u1'')
     = Some [''movie-1'', ''tvshow-1'', ''movie-2'']"
  by (simp add: step_defs example_defs)

end
